theory Spec2Isabelle
  imports Main "HOL-Library.Multiset" "HOL-Library.Char_ord" "HOL-Library.List_Lexorder"
begin

section \<open>Tiles and the per-source tile cache (BasicSourceCache)\<close>

text \<open>
  The second half of \<^verbatim>\<open>src/basic_renderer/index.ts\<close> is the class
  \<^verbatim>\<open>BasicSourceCache\<close>. Tiles are mutable objects that several owners point to (the
  in-use table, the LRU cache, the tile lists of pending renders), so the cache keeps an explicit
  store from tile addresses to tile values; promises are objects of their own as well, because
  \<^verbatim>\<open>tile.loadedPromise = null\<close> clears the field and leaves the promise alive.
\<close>

text \<open>
  Modelled from the spec: the tile-coordinate class \<^verbatim>\<open>OverscaledTileID\<close>
  (\<^verbatim>\<open>../source/tile_id\<close>) is not among the sources. The model keeps the five
  constructor arguments the renderer passes; \<^verbatim>\<open>key\<close> is an injective, stable key
  of the coordinate and \<^verbatim>\<open>wrapped()\<close> is the same coordinate with wrap 0.
\<close>

record OverscaledTileID =
  overscaledZ :: int
  wrap :: int
  canonicalZ :: int
  canonicalX :: int
  canonicalY :: int

type_synonym TileKey = "int \<times> int \<times> int \<times> int \<times> int"

definition key :: "OverscaledTileID \<Rightarrow> TileKey" where
  "key t = (wrap t, overscaledZ t, canonicalZ t, canonicalX t, canonicalY t)"

definition wrapped :: "OverscaledTileID \<Rightarrow> OverscaledTileID" where
  "wrapped t = t\<lparr>wrap := 0\<rparr>"

datatype jsnum = Fin int | PosInf | NegInf

text \<open>
  Modelled from the spec: the class \<^verbatim>\<open>Tile\<close> (\<^verbatim>\<open>../source/tile\<close>) is not
  among the sources. A new tile has usage count 0, holds no data and has no load handle;
  \<^verbatim>\<open>hasData()\<close> reads the data state. The fields \<^verbatim>\<open>loadedPromise\<close> and
  \<^verbatim>\<open>_isDud\<close> are those of \<^verbatim>\<open>ExtTile\<close> (undefined on a new tile), and
  \<^verbatim>\<open>left\<close>, \<^verbatim>\<open>top\<close> are the placement the renderer writes on the tile.
\<close>

record Tile =
  tileID :: OverscaledTileID
  tileSize :: int
  uses :: int
  hasData :: bool
  isDud :: bool
  loadedPromise :: "nat option"
  tileLeft :: "jsnum option"
  tileTop :: "jsnum option"

definition newTile :: "OverscaledTileID \<Rightarrow> int \<Rightarrow> Tile" where
  "newTile tid sz =
     \<lparr>tileID = tid, tileSize = sz, uses = 0, hasData = False, isDud = False,
      loadedPromise = None, tileLeft = None, tileTop = None\<rparr>"

datatype PromiseState = Pending | Resolved | Rejected

text \<open>The calls the cache makes into its source (the fetch backend), in call order.\<close>

datatype SourceCall = LoadTile nat | AbortTile nat | UnloadTile nat

datatype error = AssertionError | TypeError

record SourceCache =
  tileStore :: "nat \<Rightarrow> Tile"
  nextTile :: nat
  promises :: "nat \<Rightarrow> PromiseState"
  nextPromise :: nat
  tilesInUse :: "TileKey \<rightharpoonup> nat"
  tileCache :: "(TileKey \<times> nat) list"
  currentlyRenderingTiles :: "nat list"
  sourceCalls :: "SourceCall list"

definition TILE_CACHE_SIZE :: nat where
  "TILE_CACHE_SIZE = 20"

definition newSourceCache :: SourceCache where
  "newSourceCache =
     \<lparr>tileStore = (\<lambda>_. newTile \<lparr>overscaledZ = 0, wrap = 0, canonicalZ = 0, canonicalX = 0,
                                  canonicalY = 0\<rparr> 0),
      nextTile = 0, promises = (\<lambda>_. Pending), nextPromise = 0, tilesInUse = Map.empty,
      tileCache = [], currentlyRenderingTiles = [], sourceCalls = []\<rparr>"

text \<open>
  Modelled from the spec: the LRU cache class (\<^verbatim>\<open>../source/tile_cache\<close>) is not among
  the sources. By the spec it is a bounded store of unused tiles with capacity N; an insertion
  that takes it past its capacity evicts the least recently inserted entry and invokes the unload
  callback on the evicted tile. The entries are kept oldest first; the callback is the one the
  constructor of \<^verbatim>\<open>BasicSourceCache\<close> passes,
  \<^verbatim>\<open>(t) => this._source.unloadTile(t)\<close>, and the capacity is the constant it passes.
\<close>

definition cacheAdd :: "OverscaledTileID \<Rightarrow> nat \<Rightarrow> SourceCache \<Rightarrow> SourceCache" where
  "cacheAdd tid r c =
     (let entries = tileCache c @ [(key tid, r)] in
      if length entries > TILE_CACHE_SIZE
      then c\<lparr>tileCache := tl entries,
              sourceCalls := sourceCalls c @ [UnloadTile (snd (hd entries))]\<rparr>
      else c\<lparr>tileCache := entries\<rparr>)"

text \<open>
  \<^verbatim>\<open>acquireTile(tileID, size)\<close>: the tile is constructed by \<^verbatim>\<open>new Tile\<close> on every
  call, counted, filed in the in-use table under \<^verbatim>\<open>tileID.key\<close>, and, having no load
  handle yet, gets a promise and a \<^verbatim>\<open>loadTile\<close> request. The result is the address of
  the tile.
\<close>

definition acquireTile :: "OverscaledTileID \<Rightarrow> int \<Rightarrow> SourceCache \<Rightarrow> nat \<times> SourceCache" where
  "acquireTile tid sz c =
     (let r = nextTile c;
          tile = newTile (wrapped tid) sz;
          tile1 = tile\<lparr>uses := uses tile + 1\<rparr>;
          c1 = c\<lparr>tileStore := (tileStore c)(r := tile1), nextTile := r + 1,
                 tilesInUse := (tilesInUse c)(key tid \<mapsto> r)\<rparr>
      in if loadedPromise tile1 \<noteq> None then (r, c1)
         else
           let p = nextPromise c1 in
           (r, c1\<lparr>promises := (promises c1)(p := Pending), nextPromise := p + 1,
                  tileStore := (tileStore c1)(r := tile1\<lparr>loadedPromise := Some p\<rparr>),
                  sourceCalls := sourceCalls c1 @ [LoadTile r]\<rparr>))"

text \<open>
  The two callbacks \<^verbatim>\<open>acquireTile\<close> registers for tile \<open>r\<close> and its promise \<open>p\<close>:
  the answer of \<^verbatim>\<open>loadTile\<close> (with or without an error) and the 60 s timer. Settling
  a promise that is already settled changes nothing. On success the source has filled the tile
  (the spec: the tile's data is mutated in place by the fetch backend).
\<close>

definition settle :: "nat \<Rightarrow> PromiseState \<Rightarrow> SourceCache \<Rightarrow> SourceCache" where
  "settle p v c = (if promises c p = Pending then c\<lparr>promises := (promises c)(p := v)\<rparr> else c)"

definition loadCallback :: "nat \<Rightarrow> nat \<Rightarrow> bool \<Rightarrow> SourceCache \<Rightarrow> SourceCache" where
  "loadCallback r p err c =
     (if err
      then settle p Rejected (c\<lparr>tileStore := (tileStore c)(r := (tileStore c r)\<lparr>isDud := True\<rparr>)\<rparr>)
      else settle p Resolved (c\<lparr>tileStore := (tileStore c)(r := (tileStore c r)\<lparr>hasData := True\<rparr>)\<rparr>))"

definition loadTimeout :: "nat \<Rightarrow> nat \<Rightarrow> SourceCache \<Rightarrow> SourceCache" where
  "loadTimeout r p c =
     settle p Rejected
       (c\<lparr>sourceCalls := sourceCalls c @ [AbortTile r],
          tileStore := (tileStore c)(r := (tileStore c r)\<lparr>loadedPromise := None\<rparr>)\<rparr>)"

text \<open>\<^verbatim>\<open>releaseTile(tile)\<close>; the failed \<^verbatim>\<open>assert\<close> is the error value.\<close>

definition releaseTile :: "nat \<Rightarrow> SourceCache \<Rightarrow> error + SourceCache" where
  "releaseTile r c =
     (let t = tileStore c r in
      if \<not> uses t > 0 then Inl AssertionError
      else
        let t1 = t\<lparr>uses := uses t - 1\<rparr>;
            c1 = c\<lparr>tileStore := (tileStore c)(r := t1)\<rparr>
        in if uses t1 > 0 then Inr c1
           else
             let c2 = c1\<lparr>tilesInUse := (tilesInUse c1)(key (tileID t1) := None)\<rparr>
             in if hasData t1 \<or> isDud t1 then Inr (cacheAdd (tileID t1) r c2)
                else Inr (c2\<lparr>sourceCalls := sourceCalls c2 @ [AbortTile r, UnloadTile r]\<rparr>))"

section \<open>Numbers and strings of the renderer\<close>

text \<open>
  Callers pass finite pixel coordinates (integers here). Canonicalisation reduces with
  \<^verbatim>\<open>Math.min\<close> from \<^verbatim>\<open>Infinity\<close>, so the canonical placements and source
  coordinates are numbers that may be infinite: \<^typ>\<open>jsnum\<close>.
\<close>

fun jslt :: "jsnum \<Rightarrow> jsnum \<Rightarrow> bool" where
  "jslt (Fin a) (Fin b) = (a < b)"
| "jslt (Fin a) PosInf = True"
| "jslt (Fin a) NegInf = False"
| "jslt PosInf b = False"
| "jslt NegInf (Fin b) = True"
| "jslt NegInf PosInf = True"
| "jslt NegInf NegInf = False"

definition jsmin :: "jsnum \<Rightarrow> jsnum \<Rightarrow> jsnum" where
  "jsmin a b = (if jslt b a then b else a)"

definition jsmax :: "jsnum \<Rightarrow> jsnum \<Rightarrow> jsnum" where
  "jsmax a b = (if jslt a b then b else a)"

text \<open>A finite number minus a number, and a number plus or minus a finite number.\<close>

fun finMinus :: "int \<Rightarrow> jsnum \<Rightarrow> jsnum" where
  "finMinus a (Fin b) = Fin (a - b)"
| "finMinus a PosInf = NegInf"
| "finMinus a NegInf = PosInf"

fun plusFin :: "jsnum \<Rightarrow> int \<Rightarrow> jsnum" where
  "plusFin (Fin a) b = Fin (a + b)"
| "plusFin PosInf b = PosInf"
| "plusFin NegInf b = NegInf"

fun minusFin :: "jsnum \<Rightarrow> int \<Rightarrow> jsnum" where
  "minusFin (Fin a) b = Fin (a - b)"
| "minusFin PosInf b = PosInf"
| "minusFin NegInf b = NegInf"

text \<open>\<^verbatim>\<open>v | 0\<close>: ToInt32, which wraps a finite integer and sends the infinities to 0.\<close>

fun toInt32 :: "jsnum \<Rightarrow> int" where
  "toInt32 (Fin a) = (a + 2147483648) mod 4294967296 - 2147483648"
| "toInt32 PosInf = 0"
| "toInt32 NegInf = 0"

definition digitChar :: "nat \<Rightarrow> char" where
  "digitChar d = ''0123456789'' ! d"

fun showNat :: "nat \<Rightarrow> string" where
  "showNat n = (if n < 10 then [digitChar n] else showNat (n div 10) @ [digitChar (n mod 10)])"

declare showNat.simps [simp del]

definition showInt :: "int \<Rightarrow> string" where
  "showInt i = (if i < 0 then ''-'' @ showNat (nat (- i)) else showNat (nat i))"

fun showJs :: "jsnum \<Rightarrow> string" where
  "showJs (Fin a) = showInt a"
| "showJs PosInf = ''Infinity''"
| "showJs NegInf = ''-Infinity''"

fun joinWith :: "string \<Rightarrow> string list \<Rightarrow> string" where
  "joinWith sep [] = []"
| "joinWith sep [a] = a"
| "joinWith sep (a # b # bs) = a @ sep @ joinWith sep (b # bs)"

section \<open>The renderer (BasicRenderer)\<close>

definition OFFSCREEN_CANV_SIZE :: int where
  "OFFSCREEN_CANV_SIZE = 1024"

text \<open>
  \<^verbatim>\<open>drawSpec\<close> has \<^verbatim>\<open>{destLeft,destTop,srcLeft,srcTop,width,height}\<close> and a
  tile spec has \<^verbatim>\<open>{source,z,x,y,left,top,size}\<close>; the type parameter is the type of the
  coordinates that canonicalisation rewrites (\<^typ>\<open>int\<close> as passed in, \<^typ>\<open>jsnum\<close>
  after it).
\<close>

record 'n DrawSpec =
  srcLeft :: 'n
  srcTop :: 'n
  width :: int
  height :: int
  destLeft :: int
  destTop :: int

record 'n TileSpec =
  tsSource :: string
  tsZ :: int
  tsX :: int
  tsY :: int
  tsLeft :: 'n
  tsTop :: 'n
  tsSize :: int

text \<open>
  A consumer is the object \<^verbatim>\<open>{ctx, drawSpec, tilesSpec, next}\<close>. The canvas context and
  the callback are opaque and stand as identifiers; \<open>consumerId\<close> is the identity of the
  object, which \<^verbatim>\<open>indexOf\<close> compares.
\<close>

record Consumer =
  consumerId :: nat
  ctx :: nat
  drawSpec :: "jsnum DrawSpec"
  tilesSpec :: "jsnum TileSpec list"
  cbNext :: nat

type_synonym TileRef = "string \<times> nat"

record RenderState =
  stTileSetID :: string
  stRenderId :: nat
  stTiles :: "TileRef list"
  stConsumers :: "Consumer list"

record RenderRef =
  refRenderId :: nat
  refConsumer :: Consumer
  refTiles :: "TileRef list"
  refTileSetID :: string

text \<open>
  What the \<^verbatim>\<open>then\<close> callback of \<^verbatim>\<open>renderTiles\<close> closes over: the fingerprint,
  the render id, the canonical specs of the submission that created the render, and the promises
  it waits for (one per tile).
\<close>

record Continuation =
  kTileSetID :: string
  kRenderId :: nat
  kDrawSpec :: "jsnum DrawSpec"
  kTilesSpec :: "jsnum TileSpec list"
  kPromises :: "(string \<times> nat) list"

text \<open>
  The calls the renderer makes on its collaborators, in call order: on a consumer's canvas
  context, on the style and the painter, and a consumer's completion callback with its outcome
  (\<open>None\<close> is \<^verbatim>\<open>null\<close>). The position matrices the renderer writes on the tiles
  before a \<^verbatim>\<open>painter.render\<close> are floating-point matrices computed from the origin of
  the block; the call is recorded with that origin.
\<close>

datatype Call =
  ClearRect nat int int int int
| DrawImage nat int int int int jsnum jsnum
| StyleUpdate int
| PainterRender int int
| Next nat "string option"

record Renderer =
  pendingRenders :: "string \<rightharpoonup> RenderState"
  nextRenderId :: nat
  nextConsumerId :: nat
  sourceCaches :: "string \<rightharpoonup> SourceCache"
  continuations :: "Continuation list"
  calls :: "Call list"

definition canonicalizeSpec ::
  "int TileSpec list \<Rightarrow> int DrawSpec \<Rightarrow> jsnum TileSpec list \<times> jsnum DrawSpec" where
  "canonicalizeSpec ts d =
     (let minLeft = foldl jsmin PosInf (map (\<lambda>s. Fin (tsLeft s)) ts);
          minTop = foldl jsmin PosInf (map (\<lambda>s. Fin (tsTop s)) ts)
      in (map (\<lambda>s. \<lparr>tsSource = tsSource s, tsZ = tsZ s, tsX = tsX s, tsY = tsY s,
                       tsLeft = finMinus (tsLeft s) minLeft, tsTop = finMinus (tsTop s) minTop,
                       tsSize = tsSize s\<rparr>) ts,
          \<lparr>srcLeft = finMinus (srcLeft d) minLeft, srcTop = finMinus (srcTop d) minTop,
           width = width d, height = height d, destLeft = destLeft d, destTop = destTop d\<rparr>))"

definition specString :: "jsnum TileSpec \<Rightarrow> string" where
  "specString s =
     tsSource s @ '' '' @ showInt (tsZ s) @ '' '' @ showInt (tsX s) @ '' '' @ showInt (tsY s) @
     '' '' @ showJs (tsLeft s) @ '' '' @ showJs (tsTop s) @ '' '' @ showInt (tsSize s)"

definition tileSpecToString :: "jsnum TileSpec list \<Rightarrow> string" where
  "tileSpecToString ts = joinWith '' '' (sort (map specString ts))"

definition finishRender :: "string \<Rightarrow> nat \<Rightarrow> string option \<Rightarrow> Renderer \<Rightarrow> Renderer" where
  "finishRender tid rid err s =
     (case pendingRenders s tid of
        None \<Rightarrow> s
      | Some state \<Rightarrow>
          if stRenderId state \<noteq> rid then s
          else s\<lparr>calls := calls s @ map (\<lambda>c. Next (cbNext c) err) (stConsumers state),
                 pendingRenders := (pendingRenders s)(tid := None)\<rparr>)"

text \<open>A tile is reached through its cache: a reference is the source name and the address.\<close>

definition updTile ::
  "TileRef \<Rightarrow> (Tile \<Rightarrow> Tile) \<Rightarrow> (string \<rightharpoonup> SourceCache) \<Rightarrow> (string \<rightharpoonup> SourceCache)" where
  "updTile t f sc =
     (case sc (fst t) of
        None \<Rightarrow> sc
      | Some c \<Rightarrow> sc(fst t \<mapsto> c\<lparr>tileStore := (tileStore c)(snd t := f (tileStore c (snd t)))\<rparr>))"

definition getTile :: "(string \<rightharpoonup> SourceCache) \<Rightarrow> TileRef \<Rightarrow> Tile option" where
  "getTile sc t = map_option (\<lambda>c. tileStore c (snd t)) (sc (fst t))"

text \<open>\<^verbatim>\<open>renderRef.tiles.forEach((t) => t.cache.releaseTile(t))\<close>\<close>

fun releaseTiles ::
  "TileRef list \<Rightarrow> (string \<rightharpoonup> SourceCache) \<Rightarrow> error + (string \<rightharpoonup> SourceCache)" where
  "releaseTiles [] sc = Inr sc"
| "releaseTiles (t # ts) sc =
     (case sc (fst t) of
        None \<Rightarrow> Inl TypeError
      | Some c \<Rightarrow>
          (case releaseTile (snd t) c of
             Inl e \<Rightarrow> Inl e
           | Inr c1 \<Rightarrow> releaseTiles ts (sc(fst t \<mapsto> c1))))"

text \<open>\<^verbatim>\<open>indexOf\<close> and \<^verbatim>\<open>splice(idx, 1)\<close>: the first occurrence of the object goes.\<close>

fun spliceOut :: "nat \<Rightarrow> Consumer list \<Rightarrow> Consumer list" where
  "spliceOut i [] = []"
| "spliceOut i (c # cs) = (if consumerId c = i then cs else c # spliceOut i cs)"

definition releaseRender :: "RenderRef \<Rightarrow> Renderer \<Rightarrow> error + Renderer" where
  "releaseRender renderRef s =
     (let state = pendingRenders s (refTileSetID renderRef) in
      case releaseTiles (refTiles renderRef) (sourceCaches s) of
        Inl e \<Rightarrow> Inl e
      | Inr sc \<Rightarrow>
          let s1 = s\<lparr>sourceCaches := sc\<rparr> in
          (case state of
             None \<Rightarrow> Inr s1
           | Some st \<Rightarrow>
               if stRenderId st \<noteq> refRenderId renderRef then Inr s1
               else
                 let s2 = s1\<lparr>calls := calls s1 @
                              [Next (cbNext (refConsumer renderRef)) (Some ''canceled'')]\<rparr>;
                     st1 = st\<lparr>stConsumers :=
                              spliceOut (consumerId (refConsumer renderRef)) (stConsumers st)\<rparr>;
                     s3 = s2\<lparr>pendingRenders :=
                              (pendingRenders s2)(refTileSetID renderRef \<mapsto> st1)\<rparr>
                 in if length (stConsumers st1) = 0
                    then Inr (finishRender (stTileSetID st1) (refRenderId renderRef)
                                (Some ''fully-canceled'') s3)
                    else Inr s3))"

text \<open>
  \<^verbatim>\<open>tilesSpec.map(s => ... acquireTile(new OverscaledTileID(s.z, 0, s.z, s.x, s.y), s.size))\<close>;
  a source name with no cache is the \<^verbatim>\<open>TypeError\<close> of calling a method on
  \<^verbatim>\<open>undefined\<close>. An operation that throws is its error value; the state the
  exception leaves behind is not part of the result.
\<close>

fun acquireTiles ::
  "jsnum TileSpec list \<Rightarrow> (string \<rightharpoonup> SourceCache) \<Rightarrow>
     error + (TileRef list \<times> (string \<rightharpoonup> SourceCache))" where
  "acquireTiles [] sc = Inr ([], sc)"
| "acquireTiles (s # ss) sc =
     (case sc (tsSource s) of
        None \<Rightarrow> Inl TypeError
      | Some c \<Rightarrow>
          (case acquireTile \<lparr>overscaledZ = tsZ s, wrap = 0, canonicalZ = tsZ s,
                              canonicalX = tsX s, canonicalY = tsY s\<rparr> (tsSize s) c of
             (r, c1) \<Rightarrow>
               (case acquireTiles ss (sc(tsSource s \<mapsto> c1)) of
                  Inl e \<Rightarrow> Inl e
                | Inr (rs, sc1) \<Rightarrow> Inr ((tsSource s, r) # rs, sc1))))"

text \<open>
  \<^verbatim>\<open>state.tiles.map((t, ii) => t.loadedPromise.catch(...))\<close>: the promise of each tile
  at the time of the submission; a cleared field is the \<^verbatim>\<open>TypeError\<close> of calling a
  method on \<^verbatim>\<open>null\<close>.
\<close>

fun tilePromises ::
  "TileRef list \<Rightarrow> (string \<rightharpoonup> SourceCache) \<Rightarrow> error + (string \<times> nat) list" where
  "tilePromises [] sc = Inr []"
| "tilePromises (t # ts) sc =
     (case getTile sc t of
        None \<Rightarrow> Inl TypeError
      | Some tile \<Rightarrow>
          (case loadedPromise tile of
             None \<Rightarrow> Inl TypeError
           | Some p \<Rightarrow>
               (case tilePromises ts sc of
                  Inl e \<Rightarrow> Inl e
                | Inr ps \<Rightarrow> Inr ((fst t, p) # ps))))"

definition renderTiles ::
  "nat \<Rightarrow> int DrawSpec \<Rightarrow> int TileSpec list \<Rightarrow> nat \<Rightarrow> Renderer \<Rightarrow>
     error + (RenderRef \<times> Renderer)" where
  "renderTiles cx ds ts nx s =
     (case canonicalizeSpec ts ds of
        (tilesSpec1, drawSpec1) \<Rightarrow>
          let tileSetID = tileSpecToString tilesSpec1;
              consumer = \<lparr>consumerId = nextConsumerId s, ctx = cx, drawSpec = drawSpec1,
                          tilesSpec = tilesSpec1, cbNext = nx\<rparr>;
              s0 = s\<lparr>nextConsumerId := nextConsumerId s + 1\<rparr>
          in
          (case pendingRenders s0 tileSetID of
             Some state \<Rightarrow>
               let sc = foldl (\<lambda>sc t. updTile t (\<lambda>tile. tile\<lparr>uses := uses tile + 1\<rparr>) sc)
                          (sourceCaches s0) (stTiles state);
                   state1 = state\<lparr>stConsumers := stConsumers state @ [consumer]\<rparr>
               in Inr (\<lparr>refRenderId = stRenderId state, refConsumer = consumer,
                         refTiles = stTiles state, refTileSetID = tileSetID\<rparr>,
                       s0\<lparr>sourceCaches := sc,
                          pendingRenders := (pendingRenders s0)(tileSetID \<mapsto> state1)\<rparr>)
           | None \<Rightarrow>
               let renderId = nextRenderId s0 + 1 in
               (case acquireTiles tilesSpec1 (sourceCaches s0) of
                  Inl e \<Rightarrow> Inl e
                | Inr (tiles, sc) \<Rightarrow>
                    (case tilePromises tiles sc of
                       Inl e \<Rightarrow> Inl e
                     | Inr ps \<Rightarrow>
                         let state = \<lparr>stTileSetID = tileSetID, stRenderId = renderId,
                                      stTiles = tiles, stConsumers = [consumer]\<rparr>;
                             k = \<lparr>kTileSetID = tileSetID, kRenderId = renderId,
                                  kDrawSpec = drawSpec1, kTilesSpec = tilesSpec1,
                                  kPromises = ps\<rparr>
                         in Inr (\<lparr>refRenderId = renderId, refConsumer = consumer,
                                   refTiles = tiles, refTileSetID = tileSetID\<rparr>,
                                 s0\<lparr>nextRenderId := renderId, sourceCaches := sc,
                                    pendingRenders := (pendingRenders s0)(tileSetID \<mapsto> state),
                                    continuations := continuations s0 @ [k]\<rparr>)))))"

subsection \<open>The continuation of a render: all tile loads have settled\<close>

definition promiseState :: "(string \<rightharpoonup> SourceCache) \<Rightarrow> string \<times> nat \<Rightarrow> PromiseState" where
  "promiseState sc p = (case sc (fst p) of None \<Rightarrow> Pending | Some c \<Rightarrow> promises c (snd p))"

text \<open>
  \<^verbatim>\<open>Promise.all\<close> over the caught promises fulfils when none of them is pending, and a
  rejected one has pushed its index on \<^verbatim>\<open>badTileIdxs\<close>; the callback reads the length
  of that array and asks it for membership only, so the model lists the indices in index order.
\<close>

definition allSettled :: "Continuation \<Rightarrow> Renderer \<Rightarrow> bool" where
  "allSettled k s = list_all (\<lambda>p. promiseState (sourceCaches s) p \<noteq> Pending) (kPromises k)"

definition badTileIdxs :: "Continuation \<Rightarrow> Renderer \<Rightarrow> nat list" where
  "badTileIdxs k s =
     filter (\<lambda>ii. promiseState (sourceCaches s) (kPromises k ! ii) = Rejected)
       [0..<length (kPromises k)]"

text \<open>
  \<^verbatim>\<open>tilesSpec.forEach((s, ii) => ...)\<close>: a usable tile \<^verbatim>\<open>state.tiles[ii]\<close> gets
  its placement and joins \<^verbatim>\<open>currentlyRenderingTiles\<close> of the cache of its source. The
  two lists are walked together (they have the same length, the tiles being acquired one per
  spec).
\<close>

definition placeTile ::
  "jsnum TileSpec \<Rightarrow> TileRef \<Rightarrow> (string \<rightharpoonup> SourceCache) \<Rightarrow> (string \<rightharpoonup> SourceCache)" where
  "placeTile sp t sc =
     (let sc1 = updTile t (\<lambda>tile. tile\<lparr>tileSize := tsSize sp, tileLeft := Some (tsLeft sp),
                                       tileTop := Some (tsTop sp)\<rparr>) sc
      in case sc1 (tsSource sp) of
           None \<Rightarrow> sc1
         | Some c \<Rightarrow>
             sc1(tsSource sp \<mapsto> c\<lparr>currentlyRenderingTiles := currentlyRenderingTiles c @ [snd t]\<rparr>))"

fun placeTiles ::
  "nat list \<Rightarrow> nat \<Rightarrow> jsnum TileSpec list \<Rightarrow> TileRef list \<Rightarrow> (string \<rightharpoonup> SourceCache) \<Rightarrow>
     (string \<rightharpoonup> SourceCache)" where
  "placeTiles bad ii (sp # sps) (t # ts) sc =
     (if ii \<in> set bad then placeTiles bad (ii + 1) sps ts sc
      else placeTiles bad (ii + 1) sps ts (placeTile sp t sc))"
| "placeTiles bad ii sps ts sc = sc"

definition clearRendering :: "(string \<rightharpoonup> SourceCache) \<Rightarrow> (string \<rightharpoonup> SourceCache)" where
  "clearRendering sc = (\<lambda>n. map_option (\<lambda>c. c\<lparr>currentlyRenderingTiles := []\<rparr>) (sc n))"

text \<open>The test that selects \<^verbatim>\<open>relevantConsumers\<close> for the block at \<open>(xx, yy)\<close>.\<close>

definition relevant :: "int \<Rightarrow> int \<Rightarrow> Consumer \<Rightarrow> bool" where
  "relevant xx yy c =
     (jslt (Fin xx) (plusFin (srcLeft (drawSpec c)) (width (drawSpec c))) \<and>
      jslt (srcLeft (drawSpec c)) (Fin (xx + OFFSCREEN_CANV_SIZE)) \<and>
      jslt (Fin yy) (plusFin (srcTop (drawSpec c)) (height (drawSpec c))) \<and>
      jslt (srcTop (drawSpec c)) (Fin (yy + OFFSCREEN_CANV_SIZE)))"

text \<open>The \<^verbatim>\<open>drawImage\<close> call that copies the part of a rendered block a consumer sees.\<close>

definition copyOut :: "int \<Rightarrow> int \<Rightarrow> Consumer \<Rightarrow> Call" where
  "copyOut xx yy c =
     (let d = drawSpec c;
          srcLeft1 = toInt32 (jsmax (Fin 0) (minusFin (srcLeft d) xx));
          srcRight = toInt32 (jsmin (Fin OFFSCREEN_CANV_SIZE)
                                (minusFin (plusFin (srcLeft d) (width d)) xx));
          srcTop1 = toInt32 (jsmax (Fin 0) (minusFin (srcTop d) yy));
          srcBottom = toInt32 (jsmin (Fin OFFSCREEN_CANV_SIZE)
                                 (minusFin (plusFin (srcTop d) (height d)) yy));
          destLeft1 = (if jslt (srcLeft d) (Fin xx)
                       then plusFin (finMinus xx (srcLeft d)) (destLeft d)
                       else Fin (destLeft d));
          destTop1 = (if jslt (srcTop d) (Fin yy)
                      then plusFin (finMinus yy (srcTop d)) (destTop d)
                      else Fin (destTop d))
      in DrawImage (ctx c) srcLeft1 srcTop1 (srcRight - srcLeft1) (srcBottom - srcTop1)
           destLeft1 destTop1)"

text \<open>The body of the two nested loops, for the block at \<open>(xx, yy)\<close>.\<close>

definition renderBlock :: "Consumer list \<Rightarrow> int \<Rightarrow> int \<Rightarrow> int \<Rightarrow> Call list" where
  "renderBlock cs z0 xx yy =
     (let relevantConsumers = filter (relevant xx yy) cs in
      if length relevantConsumers = 0 then []
      else [StyleUpdate z0, PainterRender xx yy] @ map (copyOut xx yy) relevantConsumers)"

text \<open>
  \<^verbatim>\<open>for (let yy = ySrcMin; yy < ySrcMax; yy += OFFSCREEN_CANV_SIZE)\<close> from a finite start
  to a finite bound, and the same loop with the bounds the reductions give: a loop whose test
  fails at once returns, one with finite bounds runs, and any other never ends (\<open>None\<close>),
  the counter staying at minus infinity or the bound being infinite.
\<close>

function loopY :: "Consumer list \<Rightarrow> int \<Rightarrow> int \<Rightarrow> int \<Rightarrow> int \<Rightarrow> Call list \<Rightarrow> Call list" where
  "loopY cs z0 xx yy ySrcMax log =
     (if yy < ySrcMax
      then loopY cs z0 xx (yy + OFFSCREEN_CANV_SIZE) ySrcMax (log @ renderBlock cs z0 xx yy)
      else log)"
  by pat_completeness auto
termination
  by (relation "measure (\<lambda>(cs, z0, xx, yy, ySrcMax, log). nat (ySrcMax - yy))")
     (auto simp: OFFSCREEN_CANV_SIZE_def)

declare loopY.simps [simp del]

definition forY ::
  "Consumer list \<Rightarrow> int \<Rightarrow> int \<Rightarrow> jsnum \<Rightarrow> jsnum \<Rightarrow> Call list \<Rightarrow> Call list option" where
  "forY cs z0 xx ySrcMin ySrcMax log =
     (if \<not> jslt ySrcMin ySrcMax then Some log
      else case (ySrcMin, ySrcMax) of
             (Fin a, Fin b) \<Rightarrow> Some (loopY cs z0 xx a b log)
           | _ \<Rightarrow> None)"

function loopX ::
  "Consumer list \<Rightarrow> int \<Rightarrow> int \<Rightarrow> int \<Rightarrow> jsnum \<Rightarrow> jsnum \<Rightarrow> Call list \<Rightarrow> Call list option" where
  "loopX cs z0 xx xSrcMax ySrcMin ySrcMax log =
     (if xx < xSrcMax
      then (case forY cs z0 xx ySrcMin ySrcMax log of
              None \<Rightarrow> None
            | Some log1 \<Rightarrow> loopX cs z0 (xx + OFFSCREEN_CANV_SIZE) xSrcMax ySrcMin ySrcMax log1)
      else Some log)"
  by pat_completeness auto
termination
  by (relation "measure (\<lambda>(cs, z0, xx, xSrcMax, ySrcMin, ySrcMax, log). nat (xSrcMax - xx))")
     (auto simp: OFFSCREEN_CANV_SIZE_def)

declare loopX.simps [simp del]

definition forX ::
  "Consumer list \<Rightarrow> int \<Rightarrow> jsnum \<Rightarrow> jsnum \<Rightarrow> jsnum \<Rightarrow> jsnum \<Rightarrow> Call list \<Rightarrow> Call list option" where
  "forX cs z0 xSrcMin xSrcMax ySrcMin ySrcMax log =
     (if \<not> jslt xSrcMin xSrcMax then Some log
      else case (xSrcMin, xSrcMax) of
             (Fin a, Fin b) \<Rightarrow> loopX cs z0 a b ySrcMin ySrcMax log
           | _ \<Rightarrow> None)"

text \<open>The bounding box of all source regions and the iteration over its blocks.\<close>

definition boundingBox :: "Consumer list \<Rightarrow> jsnum \<times> jsnum \<times> jsnum \<times> jsnum" where
  "boundingBox cs =
     (let xSrcMin = foldl jsmin PosInf (map (\<lambda>c. srcLeft (drawSpec c)) cs);
          ySrcMin = foldl jsmin PosInf (map (\<lambda>c. srcTop (drawSpec c)) cs);
          xSrcMax = foldl jsmax NegInf
                      (map (\<lambda>c. plusFin (srcLeft (drawSpec c)) (width (drawSpec c))) cs);
          ySrcMax = foldl jsmax NegInf
                      (map (\<lambda>c. plusFin (srcTop (drawSpec c)) (height (drawSpec c))) cs)
      in (xSrcMin, xSrcMax, ySrcMin, ySrcMax))"

definition composite :: "Consumer list \<Rightarrow> int \<Rightarrow> Call list \<Rightarrow> Call list option" where
  "composite cs z0 log =
     (case boundingBox cs of
        (xSrcMin, xSrcMax, ySrcMin, ySrcMax) \<Rightarrow> forX cs z0 xSrcMin xSrcMax ySrcMin ySrcMax log)"

text \<open>
  The \<^verbatim>\<open>then\<close> callback of \<^verbatim>\<open>renderTiles\<close>. \<open>None\<close>: the callback never
  returns.
\<close>

definition tilesLoaded :: "Continuation \<Rightarrow> Renderer \<Rightarrow> Renderer option" where
  "tilesLoaded k s =
     (case pendingRenders s (kTileSetID k) of
        None \<Rightarrow> Some s
      | Some state \<Rightarrow>
          if stRenderId state \<noteq> kRenderId k then Some s
          else
            let bad = badTileIdxs k s;
                err = (if length bad \<noteq> 0
                       then Some (showNat (length bad) @ '' of '' @
                                  showNat (length (kTilesSpec k)) @ '' tiles not available'')
                       else None)
            in if int (length (kTilesSpec k)) - int (length bad) = 0
               then Some (finishRender (kTileSetID k) (kRenderId k) err
                            (s\<lparr>calls := calls s @
                                 map (\<lambda>c. ClearRect (ctx c) (destLeft (kDrawSpec k))
                                            (destTop (kDrawSpec k)) (width (kDrawSpec k))
                                            (height (kDrawSpec k)))
                                   (stConsumers state)\<rparr>))
               else
                 let sc1 = placeTiles bad 0 (kTilesSpec k) (stTiles state)
                             (clearRendering (sourceCaches s))
                 in case composite (stConsumers state) (tsZ (kTilesSpec k ! 0)) (calls s) of
                      None \<Rightarrow> None
                    | Some log \<Rightarrow>
                        Some (s\<lparr>calls := log @ map (\<lambda>c. Next (cbNext c) err) (stConsumers state),
                                pendingRenders := (pendingRenders s)(kTileSetID k := None),
                                sourceCaches := clearRendering sc1\<rparr>))"

section \<open>Notions the properties are stated with\<close>

text \<open>
  A uniform translation of a tile-spec list moves every placement by the same offset.
\<close>

definition translate :: "int \<Rightarrow> int \<Rightarrow> int TileSpec \<Rightarrow> int TileSpec" where
  "translate dx dy s = s\<lparr>tsLeft := tsLeft s + dx, tsTop := tsTop s + dy\<rparr>"

text \<open>
  The effect of \<^verbatim>\<open>t.uses++\<close> on each tile of a list: the caches with the usage count of
  exactly those tiles one higher and nothing else changed.
\<close>

definition bumped :: "TileRef list \<Rightarrow> (string \<rightharpoonup> SourceCache) \<Rightarrow> (string \<rightharpoonup> SourceCache)" where
  "bumped ts sc =
     (\<lambda>n. map_option
        (\<lambda>c. c\<lparr>tileStore := (\<lambda>r. if (n, r) \<in> set ts
                                   then (tileStore c r)\<lparr>uses := uses (tileStore c r) + 1\<rparr>
                                   else tileStore c r)\<rparr>) (sc n))"

definition usesOf :: "(string \<rightharpoonup> SourceCache) \<Rightarrow> TileRef \<Rightarrow> int option" where
  "usesOf sc t = map_option uses (getTile sc t)"

text \<open>
  The origins of the blocks along one axis: from the lower bound in steps of the block size
  while below the upper bound.
\<close>

function blockStarts :: "int \<Rightarrow> int \<Rightarrow> int list" where
  "blockStarts lo hi = (if lo < hi then lo # blockStarts (lo + OFFSCREEN_CANV_SIZE) hi else [])"
  by pat_completeness auto
termination
  by (relation "measure (\<lambda>(lo, hi). nat (hi - lo))") (auto simp: OFFSCREEN_CANV_SIZE_def)

declare blockStarts.simps [simp del]

text \<open>
  Two orders on the blocks of a bounding box. Column-major: all blocks of one \<open>xx\<close>, top to
  bottom, before the next \<open>xx\<close>. Row-major (the order the specification names): all blocks of
  one \<open>yy\<close>, left to right, before the next \<open>yy\<close>.
\<close>

definition columnMajorBlocks :: "int \<Rightarrow> int \<Rightarrow> int \<Rightarrow> int \<Rightarrow> (int \<times> int) list" where
  "columnMajorBlocks xlo xhi ylo yhi =
     concat (map (\<lambda>xx. map (\<lambda>yy. (xx, yy)) (blockStarts ylo yhi)) (blockStarts xlo xhi))"

definition rowMajorBlocks :: "int \<Rightarrow> int \<Rightarrow> int \<Rightarrow> int \<Rightarrow> (int \<times> int) list" where
  "rowMajorBlocks xlo xhi ylo yhi =
     concat (map (\<lambda>yy. map (\<lambda>xx. (xx, yy)) (blockStarts xlo xhi)) (blockStarts ylo yhi))"

text \<open>The blocks the painter was invoked for, in call order.\<close>

fun renderedBlocks :: "Call list \<Rightarrow> (int \<times> int) list" where
  "renderedBlocks [] = []"
| "renderedBlocks (PainterRender xx yy # cs) = (xx, yy) # renderedBlocks cs"
| "renderedBlocks (c # cs) = renderedBlocks cs"

section \<open>Concrete runs\<close>

text \<open>A tile coordinate, a cache that holds it in use, and the same once its load succeeded.\<close>

definition tileA :: OverscaledTileID where
  "tileA = \<lparr>overscaledZ = 3, wrap = 0, canonicalZ = 3, canonicalX = 1, canonicalY = 2\<rparr>"

definition acquiredA :: SourceCache where
  "acquiredA = snd (acquireTile tileA 512 newSourceCache)"

definition loadedA :: SourceCache where
  "loadedA = loadCallback 0 0 False acquiredA"

text \<open>
  The same coordinate acquired a second time while the first tile is in use, and that cache once
  the first tile is released; the loaded tile released into the LRU cache, and its coordinate
  acquired again after that.
\<close>

definition acquiredTwice :: SourceCache where
  "acquiredTwice = snd (acquireTile tileA 512 acquiredA)"

definition firstReleased :: SourceCache where
  "firstReleased = (case releaseTile 0 acquiredTwice of Inl e \<Rightarrow> acquiredTwice | Inr c \<Rightarrow> c)"

definition cachedA :: SourceCache where
  "cachedA = (case releaseTile 0 loadedA of Inl e \<Rightarrow> loadedA | Inr c \<Rightarrow> c)"

definition reacquiredA :: SourceCache where
  "reacquiredA = snd (acquireTile tileA 512 cachedA)"

text \<open>
  Tile number \<open>i\<close> of a row of tiles; \<open>useOnce\<close> acquires it, lets its load succeed and
  releases it; \<open>fullCache\<close> has done so for twenty tiles and holds a twenty-first, loaded,
  in use.
\<close>

definition tileAt :: "nat \<Rightarrow> OverscaledTileID" where
  "tileAt i = \<lparr>overscaledZ = 5, wrap = 0, canonicalZ = 5, canonicalX = int i, canonicalY = 0\<rparr>"

definition useOnce :: "nat \<Rightarrow> SourceCache \<Rightarrow> SourceCache" where
  "useOnce i c =
     (case acquireTile (tileAt i) 512 c of
        (r, c1) \<Rightarrow>
          (case releaseTile r (loadCallback r (nextPromise c) False c1) of
             Inl e \<Rightarrow> c1
           | Inr c2 \<Rightarrow> c2))"

definition fullCache :: SourceCache where
  "fullCache =
     (case acquireTile (tileAt 20) 512 (fold useOnce [0..<20] newSourceCache) of
        (r, c1) \<Rightarrow> loadCallback r 20 False c1)"

text \<open>
  A renderer with one source, tile specs of that source, draw specs of a 256 by 256 region, and
  the state a submission leaves.
\<close>

definition renderer0 :: Renderer where
  "renderer0 =
     \<lparr>pendingRenders = Map.empty, nextRenderId = 0, nextConsumerId = 0,
      sourceCaches = [''pbf'' \<mapsto> newSourceCache], continuations = [], calls = []\<rparr>"

definition specAt :: "int \<Rightarrow> int \<Rightarrow> int \<Rightarrow> int \<Rightarrow> int TileSpec" where
  "specAt tx ty l t =
     \<lparr>tsSource = ''pbf'', tsZ = 3, tsX = tx, tsY = ty, tsLeft = l, tsTop = t, tsSize = 256\<rparr>"

definition drawTo :: "int \<Rightarrow> int \<Rightarrow> int DrawSpec" where
  "drawTo dl dt =
     \<lparr>srcLeft = 0, srcTop = 0, width = 256, height = 256, destLeft = dl, destTop = dt\<rparr>"

definition submitted :: "error + (RenderRef \<times> Renderer) \<Rightarrow> Renderer" where
  "submitted res = (case res of Inl e \<Rightarrow> renderer0 | Inr (renderRef, s) \<Rightarrow> s)"

definition onSource :: "string \<Rightarrow> (SourceCache \<Rightarrow> SourceCache) \<Rightarrow> Renderer \<Rightarrow> Renderer" where
  "onSource n f s =
     s\<lparr>sourceCaches := (\<lambda>m. if m = n then map_option f (sourceCaches s m) else sourceCaches s m)\<rparr>"

text \<open>
  The continuation \<^verbatim>\<open>renderTiles\<close> schedules for a submission that creates the render
  with the given id and waits for the given promises; the context and the destination rectangle
  of a consumer; the blocks painted by a continuation that returned.
\<close>

definition continuationOf ::
  "int DrawSpec \<Rightarrow> int TileSpec list \<Rightarrow> nat \<Rightarrow> (string \<times> nat) list \<Rightarrow> Continuation" where
  "continuationOf d ts rid ps =
     \<lparr>kTileSetID = tileSpecToString (fst (canonicalizeSpec ts d)), kRenderId = rid,
      kDrawSpec = snd (canonicalizeSpec ts d), kTilesSpec = fst (canonicalizeSpec ts d),
      kPromises = ps\<rparr>"

definition destRect :: "Consumer \<Rightarrow> nat \<times> int \<times> int \<times> int \<times> int" where
  "destRect c =
     (ctx c, destLeft (drawSpec c), destTop (drawSpec c), width (drawSpec c),
      height (drawSpec c))"

definition blocksPainted :: "Renderer option \<Rightarrow> (int \<times> int) list option" where
  "blocksPainted res = map_option (\<lambda>s. renderedBlocks (calls s)) res"

text \<open>
  Two submissions of the same single tile with different destinations, the second arriving while
  the first is pending; \<open>twoConsumersTimedOut\<close> is the state once the load of the tile has
  timed out.
\<close>

definition oneConsumer :: Renderer where
  "oneConsumer = submitted (renderTiles 7 (drawTo 0 0) [specAt 1 2 0 0] 100 renderer0)"

definition twoConsumers :: Renderer where
  "twoConsumers = submitted (renderTiles 8 (drawTo 300 40) [specAt 1 2 0 0] 101 oneConsumer)"

definition twoConsumersTimedOut :: Renderer where
  "twoConsumersTimedOut = onSource ''pbf'' (loadTimeout 0 0) twoConsumers"

definition timedOutContinuation :: Continuation where
  "timedOutContinuation = continuationOf (drawTo 0 0) [specAt 1 2 0 0] 1 [(''pbf'', 0)]"

text \<open>
  Two submissions with an empty tile-spec list and different destinations, the second made
  before the continuation of the first has run, and the continuation the first one scheduled.
\<close>

definition oneEmpty :: Renderer where
  "oneEmpty = submitted (renderTiles 7 (drawTo 0 0) [] 100 renderer0)"

definition twoEmpty :: Renderer where
  "twoEmpty = submitted (renderTiles 8 (drawTo 300 40) [] 101 oneEmpty)"

definition emptyContinuation :: Continuation where
  "emptyContinuation = continuationOf (drawTo 0 0) [] 1 []"

text \<open>
  A submission of two tiles side by side, and a second tile-spec list that is the first one moved
  by (20, 30) and listed in the other order.
\<close>

definition pairSpecs :: "int TileSpec list" where
  "pairSpecs = [specAt 1 2 100 50, specAt 2 2 356 50]"

definition movedPairSpecs :: "int TileSpec list" where
  "movedPairSpecs = [specAt 2 2 376 80, specAt 1 2 120 80]"

definition pairSubmitted :: Renderer where
  "pairSubmitted = submitted (renderTiles 1 (drawTo 0 0) pairSpecs 11 renderer0)"

text \<open>
  The single submission of \<open>oneConsumer\<close> released while it is pending, and the same tile set
  submitted again after that.
\<close>

definition firstRef :: "RenderRef option" where
  "firstRef =
     (case renderTiles 7 (drawTo 0 0) [specAt 1 2 0 0] 100 renderer0 of
        Inl e \<Rightarrow> None
      | Inr (renderRef, s) \<Rightarrow> Some renderRef)"

definition canceledRender :: Renderer where
  "canceledRender =
     (case firstRef of
        None \<Rightarrow> oneConsumer
      | Some renderRef \<Rightarrow>
          (case releaseRender renderRef oneConsumer of Inl e \<Rightarrow> oneConsumer | Inr s \<Rightarrow> s))"

definition resubmitted :: Renderer where
  "resubmitted = submitted (renderTiles 9 (drawTo 0 0) [specAt 1 2 0 0] 102 canceledRender)"

text \<open>
  The state after the continuation of \<open>twoConsumersTimedOut\<close> has run: the render is settled
  and both handles are still to be released.
\<close>

definition settledRender :: Renderer where
  "settledRender =
     (case tilesLoaded timedOutContinuation twoConsumersTimedOut of
        None \<Rightarrow> twoConsumersTimedOut
      | Some s \<Rightarrow> s)"

text \<open>
  A submission whose source region spans two by two blocks, once its tile has loaded; and two
  consumers on the diagonal of a bounding box of two by two blocks, each filling one block.
\<close>

definition wideDraw :: "int DrawSpec" where
  "wideDraw =
     \<lparr>srcLeft = 0, srcTop = 0, width = 2048, height = 2048, destLeft = 0, destTop = 0\<rparr>"

definition wideLoaded :: Renderer where
  "wideLoaded =
     onSource ''pbf'' (loadCallback 0 0 False)
       (submitted (renderTiles 7 wideDraw [specAt 1 2 0 0] 100 renderer0))"

definition wideContinuation :: Continuation where
  "wideContinuation = continuationOf wideDraw [specAt 1 2 0 0] 1 [(''pbf'', 0)]"

definition blockConsumer :: "nat \<Rightarrow> int \<Rightarrow> int \<Rightarrow> Consumer" where
  "blockConsumer i l t =
     \<lparr>consumerId = i, ctx = i, 
      drawSpec = \<lparr>srcLeft = Fin l, srcTop = Fin t, width = 1024, height = 1024,
                  destLeft = 0, destTop = 0\<rparr>,
      tilesSpec = [], cbNext = i\<rparr>"

definition diagonalConsumers :: "Consumer list" where
  "diagonalConsumers = [blockConsumer 1 0 0, blockConsumer 2 1024 1024]"

section \<open>Properties of the tile cache\<close>

lemma acquireTile_fresh: "fst (acquireTile tid sz c) = nextTile c"
  by (simp add: acquireTile_def Let_def newTile_def)

text \<open>
  Whatever the cache holds, \<^verbatim>\<open>acquireTile\<close> allocates a tile, counts one use on it, files
  it under the key (replacing what was filed there) and asks the source to load it.
\<close>

lemma acquireTile_always_new:
  "\<exists>c1. acquireTile tid sz c = (nextTile c, c1) \<and> nextTile c1 = nextTile c + 1 \<and>
        uses (tileStore c1 (nextTile c)) = 1 \<and>
        tilesInUse c1 = (tilesInUse c)(key tid \<mapsto> nextTile c) \<and>
        tileCache c1 = tileCache c \<and>
        sourceCalls c1 = sourceCalls c @ [LoadTile (nextTile c)]"
  by (simp add: acquireTile_def Let_def newTile_def)

text \<open>
  C1. The claim: a call of \<^verbatim>\<open>acquireTile\<close> for a coordinate whose tile is tracked (in use
  or in the LRU cache) returns that tile and issues no second fetch; a tile is constructed only
  when none is tracked; the usage count of the returned tile goes up by one. The code constructs
  a tile on every call: acquiring the same coordinate twice gives two tiles and two
  \<^verbatim>\<open>loadTile\<close> requests, and a tile that was released into the LRU cache stays there
  while a new one is built and fetched for its coordinate. (Each returned tile has usage
  count 1.)
\<close>

theorem acquireTile_constructs_a_second_tile:
  "fst (acquireTile tileA 512 newSourceCache) = 0 \<and>
   tilesInUse acquiredA (key tileA) = Some 0 \<and>
   fst (acquireTile tileA 512 acquiredA) = 1 \<and>
   tilesInUse acquiredTwice (key tileA) = Some 1 \<and>
   sourceCalls acquiredTwice = [LoadTile 0, LoadTile 1] \<and>
   uses (tileStore acquiredTwice 0) = 1 \<and> uses (tileStore acquiredTwice 1) = 1 \<and>
   releaseTile 0 loadedA = Inr cachedA \<and>
   tileCache cachedA = [(key tileA, 0)] \<and> tilesInUse cachedA (key tileA) = None \<and>
   fst (acquireTile tileA 512 cachedA) = 1 \<and>
   tileCache reacquiredA = [(key tileA, 0)] \<and>
   tilesInUse reacquiredA (key tileA) = Some 1 \<and>
   sourceCalls reacquiredA = [LoadTile 0, LoadTile 1]"
  by (simp add: acquireTile_def releaseTile_def loadedA_def acquiredA_def acquiredTwice_def
        cachedA_def reacquiredA_def loadCallback_def settle_def cacheAdd_def TILE_CACHE_SIZE_def
        newSourceCache_def newTile_def Let_def tileA_def key_def wrapped_def)

text \<open>No usage count ever goes below 0: a release of a tile with count 0 fails instead.\<close>

lemma uses_never_negative:
  assumes "\<forall>r. 0 \<le> uses (tileStore c r)"
  shows "(\<forall>r. 0 \<le> uses (tileStore (snd (acquireTile tid sz c)) r)) \<and>
         (\<forall>c1. releaseTile r0 c = Inr c1 \<longrightarrow> (\<forall>r. 0 \<le> uses (tileStore c1 r)))"
  using assms
  by (auto simp: acquireTile_def releaseTile_def cacheAdd_def Let_def newTile_def
        split: if_splits)

text \<open>
  C2. The claim: in every reachable state, every tile that \<^verbatim>\<open>acquireTile\<close> returned and
  that is still referenced has a usage count of at least 0 and is in exactly one of the in-use
  table and the LRU cache. After two calls of \<^verbatim>\<open>acquireTile\<close> for one coordinate the
  first tile has usage count 1 and is in neither, the second call having overwritten its entry of
  the in-use table; and when the first tile is then released, the entry of the second is
  deleted, so that the second, usage count 1, is in neither.
\<close>

theorem acquired_tile_in_neither_collection:
  "uses (tileStore acquiredTwice 0) = 1 \<and>
   0 \<notin> ran (tilesInUse acquiredTwice) \<and> 0 \<notin> snd ` set (tileCache acquiredTwice) \<and>
   releaseTile 0 acquiredTwice = Inr firstReleased \<and>
   uses (tileStore firstReleased 1) = 1 \<and>
   1 \<notin> ran (tilesInUse firstReleased) \<and> 1 \<notin> snd ` set (tileCache firstReleased)"
  by (simp add: acquireTile_def releaseTile_def acquiredA_def acquiredTwice_def
        firstReleased_def newSourceCache_def newTile_def Let_def tileA_def key_def wrapped_def)

text \<open>
  Tiles that \<^verbatim>\<open>renderTiles\<close> acquires have wrap 0, so each is filed in the in-use table
  under the key of its own coordinate; acquiring and releasing keep it that way.
\<close>

lemma acquireTile_filed_under_own_key:
  assumes "wrap tid = 0"
    and "\<And>k r. tilesInUse c k = Some r \<Longrightarrow> key (tileID (tileStore c r)) = k \<and> r < nextTile c"
    and "acquireTile tid sz c = (r1, c1)" and "tilesInUse c1 k = Some r"
  shows "key (tileID (tileStore c1 r)) = k \<and> r < nextTile c1"
proof (cases "k = key tid")
  case True
  with assms(1,3,4) show ?thesis
    by (auto simp: acquireTile_def Let_def newTile_def wrapped_def key_def)
next
  case False
  with assms(3,4) have old: "tilesInUse c k = Some r"
    by (auto simp: acquireTile_def Let_def newTile_def)
  from assms(2)[OF old] assms(3) show ?thesis
    by (auto simp: acquireTile_def Let_def newTile_def)
qed

lemma releaseTile_filed_under_own_key:
  assumes "\<And>k r. tilesInUse c k = Some r \<Longrightarrow> key (tileID (tileStore c r)) = k \<and> r < nextTile c"
    and "releaseTile r0 c = Inr c1" and "tilesInUse c1 k = Some r"
  shows "key (tileID (tileStore c1 r)) = k \<and> r < nextTile c1"
proof -
  from assms(2,3) have old: "tilesInUse c k = Some r"
    by (auto simp: releaseTile_def Let_def cacheAdd_def split: if_splits)
  from assms(1)[OF old] assms(2) show ?thesis
    by (auto simp: releaseTile_def Let_def cacheAdd_def split: if_splits)
qed

text \<open>
  C6. \<^verbatim>\<open>releaseTile\<close> fails its assertion on a tile whose usage count is 0 (or less);
  otherwise it decrements the count. A count that stays above 0 changes nothing else. When the
  count reaches 0, the entry of the in-use table under the tile's key is deleted, so that the
  tile, filed under its own key, is no longer in the table; a tile that has data or is a dud
  becomes the newest entry of the LRU cache with no call to abort it, and a tile with neither is
  not cached: the source is asked to abort it and to unload it.
\<close>

theorem releaseTile_decrements_then_caches_or_discards:
  fixes c :: SourceCache and r :: nat
  defines "t \<equiv> tileStore c r"
  shows
    "(uses t \<le> 0 \<longrightarrow> releaseTile r c = Inl AssertionError) \<and>
     (1 < uses t \<longrightarrow>
        releaseTile r c = Inr (c\<lparr>tileStore := (tileStore c)(r := t\<lparr>uses := uses t - 1\<rparr>)\<rparr>)) \<and>
     (uses t = 1 \<longrightarrow>
        (\<exists>c1. releaseTile r c = Inr c1 \<and>
           tileStore c1 = (tileStore c)(r := t\<lparr>uses := 0\<rparr>) \<and>
           tilesInUse c1 = (tilesInUse c)(key (tileID t) := None) \<and>
           ((\<forall>k. tilesInUse c k = Some r \<longrightarrow> k = key (tileID t)) \<longrightarrow> r \<notin> ran (tilesInUse c1)) \<and>
           (if hasData t \<or> isDud t
            then c1 = cacheAdd (tileID t) r
                        (c\<lparr>tileStore := (tileStore c)(r := t\<lparr>uses := 0\<rparr>),
                           tilesInUse := (tilesInUse c)(key (tileID t) := None)\<rparr>) \<and>
                 last (tileCache c1) = (key (tileID t), r) \<and>
                 AbortTile r \<notin> set (sourceCalls c1) - set (sourceCalls c)
            else tileCache c1 = tileCache c \<and>
                 sourceCalls c1 = sourceCalls c @ [AbortTile r, UnloadTile r])))"
proof (intro conjI impI)
  assume "uses t \<le> 0"
  then show "releaseTile r c = Inl AssertionError"
    by (simp add: releaseTile_def Let_def t_def)
next
  assume "1 < uses t"
  then show "releaseTile r c = Inr (c\<lparr>tileStore := (tileStore c)(r := t\<lparr>uses := uses t - 1\<rparr>)\<rparr>)"
    by (simp add: releaseTile_def Let_def t_def)
next
  assume u: "uses t = 1"
  have gone: "r \<notin> ran (m(k := None))" if "\<forall>k'. m k' = Some r \<longrightarrow> k' = k"
    for m :: "TileKey \<rightharpoonup> nat" and k
    using that by (auto simp: ran_def)
  have newest: "last (tl (xs @ [x])) = x" if "1 \<le> length xs"
    for xs :: "(TileKey \<times> nat) list" and x
    using that by (cases xs) auto
  show "\<exists>c1. releaseTile r c = Inr c1 \<and>
           tileStore c1 = (tileStore c)(r := t\<lparr>uses := 0\<rparr>) \<and>
           tilesInUse c1 = (tilesInUse c)(key (tileID t) := None) \<and>
           ((\<forall>k. tilesInUse c k = Some r \<longrightarrow> k = key (tileID t)) \<longrightarrow> r \<notin> ran (tilesInUse c1)) \<and>
           (if hasData t \<or> isDud t
            then c1 = cacheAdd (tileID t) r
                        (c\<lparr>tileStore := (tileStore c)(r := t\<lparr>uses := 0\<rparr>),
                           tilesInUse := (tilesInUse c)(key (tileID t) := None)\<rparr>) \<and>
                 last (tileCache c1) = (key (tileID t), r) \<and>
                 AbortTile r \<notin> set (sourceCalls c1) - set (sourceCalls c)
            else tileCache c1 = tileCache c \<and>
                 sourceCalls c1 = sourceCalls c @ [AbortTile r, UnloadTile r])"
    using u gone[of "tilesInUse c" "key (tileID t)"] newest[of "tileCache c"]
    by (auto simp add: releaseTile_def Let_def t_def cacheAdd_def TILE_CACHE_SIZE_def)
qed

theorem releaseTile_decrements_then_caches_or_discards_witness:
  "releaseTile 0 newSourceCache = Inl AssertionError \<and>
   (\<exists>c1. releaseTile 0 (the (sourceCaches twoConsumers ''pbf'')) = Inr c1 \<and>
      uses (tileStore c1 0) = 1 \<and> tilesInUse c1 (key tileA) = Some 0) \<and>
   (\<exists>c1. releaseTile 0 loadedA = Inr c1 \<and> uses (tileStore c1 0) = 0 \<and>
      0 \<notin> ran (tilesInUse c1) \<and> tileCache c1 = [(key tileA, 0)] \<and>
      sourceCalls c1 = [LoadTile 0]) \<and>
   (\<exists>c1. releaseTile 0 acquiredA = Inr c1 \<and> uses (tileStore c1 0) = 0 \<and>
      0 \<notin> ran (tilesInUse c1) \<and> tileCache c1 = [] \<and>
      sourceCalls c1 = [LoadTile 0, AbortTile 0, UnloadTile 0])"
proof -
  have two: "uses (tileStore (the (sourceCaches twoConsumers ''pbf'')) 0) = 2 \<and>
             tilesInUse (the (sourceCaches twoConsumers ''pbf'')) (key tileA) = Some 0"
    by (simp add: twoConsumers_def oneConsumer_def renderTiles_def canonicalizeSpec_def Let_def
          renderer0_def specAt_def drawTo_def submitted_def acquireTile_def newTile_def
          newSourceCache_def wrapped_def key_def jsmin_def updTile_def getTile_def tileA_def)
  have a: "uses (tileStore newSourceCache 0) \<le> 0"
    by (simp add: newSourceCache_def newTile_def)
  have b: "1 < uses (tileStore (the (sourceCaches twoConsumers ''pbf'')) 0)"
    by (simp add: two)
  have c: "uses (tileStore loadedA 0) = 1 \<and> hasData (tileStore loadedA 0) \<and>
           tilesInUse loadedA = [key tileA \<mapsto> 0] \<and> tileCache loadedA = [] \<and>
           sourceCalls loadedA = [LoadTile 0] \<and> tileID (tileStore loadedA 0) = tileA"
    by (simp add: loadedA_def acquiredA_def loadCallback_def settle_def acquireTile_def
          newSourceCache_def newTile_def Let_def tileA_def key_def wrapped_def)
  have d: "uses (tileStore acquiredA 0) = 1 \<and> \<not> hasData (tileStore acquiredA 0) \<and>
           \<not> isDud (tileStore acquiredA 0) \<and>
           tilesInUse acquiredA = [key tileA \<mapsto> 0] \<and> tileCache acquiredA = [] \<and>
           sourceCalls acquiredA = [LoadTile 0] \<and> tileID (tileStore acquiredA 0) = tileA"
    by (simp add: acquiredA_def acquireTile_def newSourceCache_def newTile_def Let_def
          tileA_def key_def wrapped_def)
  from releaseTile_decrements_then_caches_or_discards[of newSourceCache 0] a
  have 1: "releaseTile 0 newSourceCache = Inl AssertionError"
    by blast
  from releaseTile_decrements_then_caches_or_discards[of "the (sourceCaches twoConsumers ''pbf'')" 0] b
  have 2: "\<exists>c1. releaseTile 0 (the (sourceCaches twoConsumers ''pbf'')) = Inr c1 \<and>
      uses (tileStore c1 0) = 1 \<and> tilesInUse c1 (key tileA) = Some 0"
    by (simp add: two)
  from releaseTile_decrements_then_caches_or_discards[of loadedA 0] c
  have 3: "\<exists>c1. releaseTile 0 loadedA = Inr c1 \<and> uses (tileStore c1 0) = 0 \<and>
      0 \<notin> ran (tilesInUse c1) \<and> tileCache c1 = [(key tileA, 0)] \<and>
      sourceCalls c1 = [LoadTile 0]"
    by (auto simp: cacheAdd_def TILE_CACHE_SIZE_def)
  from releaseTile_decrements_then_caches_or_discards[of acquiredA 0] d
  have 4: "\<exists>c1. releaseTile 0 acquiredA = Inr c1 \<and> uses (tileStore c1 0) = 0 \<and>
      0 \<notin> ran (tilesInUse c1) \<and> tileCache c1 = [] \<and>
      sourceCalls c1 = [LoadTile 0, AbortTile 0, UnloadTile 0]"
    by auto
  from 1 2 3 4 show ?thesis by blast
qed

lemma useOnce_step:
  assumes "length (tileCache c) < TILE_CACHE_SIZE" and "nextPromise c = nextTile c"
  shows "tileCache (useOnce i c) = tileCache c @ [(key (tileAt i), nextTile c)] \<and>
         nextTile (useOnce i c) = nextTile c + 1 \<and>
         nextPromise (useOnce i c) = nextPromise c + 1 \<and>
         sourceCalls (useOnce i c) = sourceCalls c @ [LoadTile (nextTile c)]"
  using assms
  by (simp add: useOnce_def acquireTile_def releaseTile_def loadCallback_def settle_def
        cacheAdd_def newTile_def Let_def tileAt_def key_def wrapped_def)

lemma fold_useOnce:
  "n \<le> TILE_CACHE_SIZE \<Longrightarrow>
   tileCache (fold useOnce [0..<n] newSourceCache) = map (\<lambda>i. (key (tileAt i), i)) [0..<n] \<and>
   nextTile (fold useOnce [0..<n] newSourceCache) = n \<and>
   nextPromise (fold useOnce [0..<n] newSourceCache) = n \<and>
   sourceCalls (fold useOnce [0..<n] newSourceCache) = map LoadTile [0..<n]"
proof (induction n)
  case 0
  then show ?case by (simp add: newSourceCache_def)
next
  case (Suc n)
  then have ih:
    "tileCache (fold useOnce [0..<n] newSourceCache) = map (\<lambda>i. (key (tileAt i), i)) [0..<n]"
    "nextTile (fold useOnce [0..<n] newSourceCache) = n"
    "nextPromise (fold useOnce [0..<n] newSourceCache) = n"
    "sourceCalls (fold useOnce [0..<n] newSourceCache) = map LoadTile [0..<n]"
    by simp_all
  have room: "length (tileCache (fold useOnce [0..<n] newSourceCache)) < TILE_CACHE_SIZE"
    using Suc.prems ih by simp
  have same: "nextPromise (fold useOnce [0..<n] newSourceCache) =
              nextTile (fold useOnce [0..<n] newSourceCache)"
    using ih by simp
  from useOnce_step[OF room same, of n] ih show ?case by simp
qed

lemma fullCache_holds:
  "tileCache fullCache = map (\<lambda>i. (key (tileAt i), i)) [0..<20] \<and>
   uses (tileStore fullCache 20) = 1 \<and> hasData (tileStore fullCache 20) \<and>
   tileID (tileStore fullCache 20) = tileAt 20 \<and>
   sourceCalls fullCache = map LoadTile [0..<20] @ [LoadTile 20]"
  using fold_useOnce[of 20]
  by (simp add: fullCache_def TILE_CACHE_SIZE_def acquireTile_def loadCallback_def settle_def
        newTile_def Let_def wrapped_def tileAt_def)

text \<open>
  C9. With the LRU cache full at its capacity of 20, releasing the last use of one more tile that
  holds data puts that tile in the cache as its newest entry, evicts the oldest entry (the cache
  keeps its entries in the order the tiles were released), and calls \<^verbatim>\<open>unloadTile\<close> of
  the source on the evicted tile; the cache stays at 20 entries.
\<close>

theorem full_cache_evicts_least_recently_released:
  assumes "length (tileCache c) = TILE_CACHE_SIZE" and "uses (tileStore c r) = 1"
    and "hasData (tileStore c r)"
  shows "TILE_CACHE_SIZE = 20 \<and>
         (\<exists>c1. releaseTile r c = Inr c1 \<and>
            tileCache c1 = tl (tileCache c) @ [(key (tileID (tileStore c r)), r)] \<and>
            sourceCalls c1 = sourceCalls c @ [UnloadTile (snd (hd (tileCache c)))] \<and>
            length (tileCache c1) = TILE_CACHE_SIZE)"
  using assms
  by (cases "tileCache c")
     (auto simp add: releaseTile_def Let_def cacheAdd_def TILE_CACHE_SIZE_def)

theorem full_cache_evicts_least_recently_released_witness:
  "length (tileCache fullCache) = TILE_CACHE_SIZE \<and> uses (tileStore fullCache 20) = 1 \<and>
   hasData (tileStore fullCache 20) \<and>
   (\<exists>c1. releaseTile 20 fullCache = Inr c1 \<and>
      tileCache c1 = map (\<lambda>i. (key (tileAt i), i)) [1..<21] \<and>
      sourceCalls c1 = map LoadTile [0..<20] @ [LoadTile 20, UnloadTile 0])"
proof -
  have h: "length (tileCache fullCache) = TILE_CACHE_SIZE" "uses (tileStore fullCache 20) = 1"
    "hasData (tileStore fullCache 20)"
    using fullCache_holds by (simp_all add: TILE_CACHE_SIZE_def)
  have "[0..<20] = 0 # [1..<20]"
    by (simp add: upt_rec)
  then have shape: "tl (map (\<lambda>i. (key (tileAt i), i)) [0..<20]) = map (\<lambda>i. (key (tileAt i), i)) [1..<20]"
    "hd (map (\<lambda>i. (key (tileAt i), i)) [0..<20]) = (key (tileAt 0), 0)"
    by simp_all
  have "[1..<21] = [1..<20] @ [20::nat]"
    by (simp add: upt_rec)
  with full_cache_evicts_least_recently_released[OF h] h shape fullCache_holds
  show ?thesis by auto
qed

section \<open>Properties of the renderer\<close>

subsection \<open>Canonicalisation and the fingerprint\<close>

lemma jsmin_Fin [simp]: "jsmin (Fin a) (Fin b) = Fin (min a b)"
  by (simp add: jsmin_def)

lemma jsmin_PosInf [simp]: "jsmin PosInf b = b"
  by (cases b) (simp_all add: jsmin_def)

lemma foldl_jsmin_Fin: "foldl jsmin (Fin a) (map Fin xs) = Fin (Min (insert a (set xs)))"
proof (induction xs arbitrary: a)
  case Nil
  show ?case by simp
next
  case (Cons x xs)
  have "Min (insert (min a x) (set xs)) = Min (insert a (insert x (set xs)))"
    by (cases "set xs = {}") (simp_all add: min.assoc)
  with Cons show ?case by simp
qed

lemma reduce_min_empty: "foldl jsmin PosInf (map Fin []) = PosInf"
  by simp

lemma reduce_min_nonempty: "xs \<noteq> [] \<Longrightarrow> foldl jsmin PosInf (map Fin xs) = Fin (Min (set xs))"
  by (cases xs) (simp_all add: foldl_jsmin_Fin)

lemma reduce_min_shifted:
  assumes "set ys = (\<lambda>v. v + d) ` set xs" and "xs \<noteq> []"
  shows "foldl jsmin PosInf (map Fin ys) = Fin (Min (set xs) + d)"
proof -
  from assms have ne: "ys \<noteq> []" by auto
  have "Min ((\<lambda>v. v + d) ` set xs) = Min (set xs) + d"
    using assms(2) by (intro mono_Min_commute[symmetric]) (auto simp: mono_def)
  with assms ne show ?thesis by (simp add: reduce_min_nonempty)
qed

lemma canonical_tiles_translated:
  assumes "mset ts2 = mset (map (translate dx dy) ts1)"
  shows "mset (fst (canonicalizeSpec ts2 d2)) = mset (fst (canonicalizeSpec ts1 d1))"
proof (cases "ts1 = []")
  case True
  with assms show ?thesis by (simp add: canonicalizeSpec_def)
next
  case False
  define canon :: "jsnum \<Rightarrow> jsnum \<Rightarrow> int TileSpec \<Rightarrow> jsnum TileSpec" where
    "canon ml mt s =
       \<lparr>tsSource = tsSource s, tsZ = tsZ s, tsX = tsX s, tsY = tsY s,
        tsLeft = finMinus (tsLeft s) ml, tsTop = finMinus (tsTop s) mt, tsSize = tsSize s\<rparr>"
    for ml mt s
  have fst_canon: "fst (canonicalizeSpec ts d) =
      map (canon (foldl jsmin PosInf (map Fin (map tsLeft ts)))
                 (foldl jsmin PosInf (map Fin (map tsTop ts)))) ts" for ts d
    by (simp add: canonicalizeSpec_def Let_def canon_def comp_def)
  have moved: "canon (Fin (a + dx)) (Fin (b + dy)) (translate dx dy s) = canon (Fin a) (Fin b) s"
    for a b s
    by (simp add: canon_def translate_def)
  from assms have "set_mset (mset ts2) = set_mset (mset (map (translate dx dy) ts1))"
    by simp
  then have st: "set ts2 = translate dx dy ` set ts1"
    by simp
  have l: "set (map tsLeft ts2) = (\<lambda>v. v + dx) ` set (map tsLeft ts1)"
    by (auto simp: st translate_def image_iff)
  have t: "set (map tsTop ts2) = (\<lambda>v. v + dy) ` set (map tsTop ts1)"
    by (auto simp: st translate_def image_iff)
  have ml: "foldl jsmin PosInf (map Fin (map tsLeft ts2)) = Fin (Min (set (map tsLeft ts1)) + dx)"
    using reduce_min_shifted[OF l] False by simp
  have mt: "foldl jsmin PosInf (map Fin (map tsTop ts2)) = Fin (Min (set (map tsTop ts1)) + dy)"
    using reduce_min_shifted[OF t] False by simp
  have ml1: "foldl jsmin PosInf (map Fin (map tsLeft ts1)) = Fin (Min (set (map tsLeft ts1)))"
    using False by (intro reduce_min_nonempty) simp
  have mt1: "foldl jsmin PosInf (map Fin (map tsTop ts1)) = Fin (Min (set (map tsTop ts1)))"
    using False by (intro reduce_min_nonempty) simp
  have "mset (fst (canonicalizeSpec ts2 d2)) =
        image_mset (canon (Fin (Min (set (map tsLeft ts1)) + dx))
                          (Fin (Min (set (map tsTop ts1)) + dy))) (mset ts2)"
    unfolding fst_canon ml mt by simp
  also have "\<dots> = image_mset (canon (Fin (Min (set (map tsLeft ts1)) + dx))
                                  (Fin (Min (set (map tsTop ts1)) + dy)))
                     (image_mset (translate dx dy) (mset ts1))"
    by (simp add: assms)
  also have "\<dots> = image_mset (canon (Fin (Min (set (map tsLeft ts1))))
                                  (Fin (Min (set (map tsTop ts1))))) (mset ts1)"
    by (simp add: multiset.map_comp comp_def moved)
  also have "\<dots> = mset (fst (canonicalizeSpec ts1 d1))"
    unfolding fst_canon ml1 mt1 by simp
  finally show ?thesis .
qed

lemma tileSpecToString_order_independent:
  assumes "mset xs = mset ys"
  shows "tileSpecToString xs = tileSpecToString ys"
proof -
  have "mset (map specString xs) = mset (map specString ys)"
    using assms by (metis mset_map)
  then have "sort (map specString xs) = sort (map specString ys)"
    by (simp add: properties_for_sort)
  then show ?thesis by (simp add: tileSpecToString_def)
qed

lemma fingerprint_translated:
  assumes "mset ts2 = mset (map (translate dx dy) ts1)"
  shows "tileSpecToString (fst (canonicalizeSpec ts2 d2)) =
         tileSpecToString (fst (canonicalizeSpec ts1 d1))"
  by (rule tileSpecToString_order_independent) (rule canonical_tiles_translated[OF assms])

subsection \<open>Coalescing\<close>

lemma foldl_updTile:
  "distinct ts \<Longrightarrow>
   foldl (\<lambda>sc t. updTile t f sc) sc ts =
     (\<lambda>n. map_option
        (\<lambda>c. c\<lparr>tileStore := (\<lambda>r. if (n, r) \<in> set ts then f (tileStore c r) else tileStore c r)\<rparr>)
        (sc n))"
proof (induction ts arbitrary: sc)
  case Nil
  show ?case by (auto simp: fun_eq_iff option.map_ident split: option.splits)
next
  case (Cons t ts)
  then have d: "distinct ts" and nin: "t \<notin> set ts" by simp_all
  obtain a b where t: "t = (a, b)" by (cases t)
  show ?case
    unfolding foldl_Cons Cons.IH[OF d]
  proof (rule ext)
    fix n
    show "map_option
            (\<lambda>c. c\<lparr>tileStore := \<lambda>r. if (n, r) \<in> set ts then f (tileStore c r) else tileStore c r\<rparr>)
            (updTile t f sc n) =
          map_option
            (\<lambda>c. c\<lparr>tileStore := \<lambda>r. if (n, r) \<in> set (t # ts) then f (tileStore c r)
                                     else tileStore c r\<rparr>)
            (sc n)"
    proof (cases "sc n")
      case None
      then show ?thesis by (auto simp add: updTile_def t split: option.splits)
    next
      case (Some c)
      then show ?thesis
        using nin by (cases "n = a") (auto simp: updTile_def t fun_eq_iff split: option.splits)
    qed
  qed
qed

text \<open>
  The tiles a new render acquires are pairwise different objects, each allocated after
  everything its cache held before.
\<close>

lemma acquireTiles_fresh:
  "acquireTiles ss sc = Inr (rs, sc1) \<Longrightarrow>
   distinct rs \<and> (\<forall>t\<in>set rs. \<exists>c. sc (fst t) = Some c \<and> nextTile c \<le> snd t)"
proof (induction ss arbitrary: sc rs sc1)
  case Nil
  then show ?case by simp
next
  case (Cons s ss)
  from Cons.prems obtain c where c: "sc (tsSource s) = Some c"
    by (auto split: option.splits)
  obtain r c1 where a: "acquireTile \<lparr>overscaledZ = tsZ s, wrap = 0, canonicalZ = tsZ s,
      canonicalX = tsX s, canonicalY = tsY s\<rparr> (tsSize s) c = (r, c1)"
    by (meson surj_pair)
  then have r: "r = nextTile c" and n1: "nextTile c1 = nextTile c + 1"
    by (auto simp: acquireTile_def Let_def newTile_def)
  from Cons.prems c a obtain rs1 where
    rec: "acquireTiles ss (sc(tsSource s \<mapsto> c1)) = Inr (rs1, sc1)" and rs: "rs = (tsSource s, r) # rs1"
    by (auto split: sum.splits prod.splits)
  from Cons.IH[OF rec] have d1: "distinct rs1"
    and f1: "\<forall>t\<in>set rs1. \<exists>c'. (sc(tsSource s \<mapsto> c1)) (fst t) = Some c' \<and> nextTile c' \<le> snd t"
    by simp_all
  have "(tsSource s, r) \<notin> set rs1"
  proof
    assume "(tsSource s, r) \<in> set rs1"
    with f1 have "nextTile c1 \<le> r" by fastforce
    with n1 r show False by simp
  qed
  moreover have "\<exists>c'. sc (fst t) = Some c' \<and> nextTile c' \<le> snd t" if "t \<in> set rs1" for t
  proof (cases "fst t = tsSource s")
    case True
    with f1 that have "nextTile c1 \<le> snd t" by fastforce
    with True c n1 show ?thesis by simp
  next
    case False
    with f1 that show ?thesis by fastforce
  qed
  ultimately show ?case
    using d1 rs c r by auto
qed

text \<open>
  C3. Let a second tile-spec list be the first one moved by a uniform translation and listed in
  any order, and let the render of the first list be pending (its state is registered under its
  fingerprint; the tiles of a state are pairwise different objects, as \<^verbatim>\<open>renderTiles\<close>
  acquires them). Then the submission of the second list computes the same fingerprint and
  returns a handle with the render id and the tile list of the pending state; the new state
  is the old one with the new consumer appended to the state's consumers, a new consumer identity
  and the usage count of each tile of the state one higher. Nothing else changes: no tile is
  constructed, no tile is requested from a source, no continuation is scheduled.
\<close>

theorem equivalent_submission_coalesces:
  assumes same: "mset ts2 = mset (map (translate dx dy) ts1)"
    and pending: "pendingRenders s (tileSpecToString (fst (canonicalizeSpec ts1 d1))) = Some st"
    and tiles: "distinct (stTiles st)"
  shows "tileSpecToString (fst (canonicalizeSpec ts2 d2)) =
           tileSpecToString (fst (canonicalizeSpec ts1 d1)) \<and>
         (\<exists>consumer.
            ctx consumer = cx \<and> cbNext consumer = nx \<and>
            renderTiles cx d2 ts2 nx s =
              Inr (\<lparr>refRenderId = stRenderId st, refConsumer = consumer, refTiles = stTiles st,
                     refTileSetID = tileSpecToString (fst (canonicalizeSpec ts1 d1))\<rparr>,
                   s\<lparr>nextConsumerId := nextConsumerId s + 1,
                     sourceCaches := bumped (stTiles st) (sourceCaches s),
                     pendingRenders := (pendingRenders s)
                       (tileSpecToString (fst (canonicalizeSpec ts1 d1)) \<mapsto>
                          st\<lparr>stConsumers := stConsumers st @ [consumer]\<rparr>)\<rparr>))"
proof -
  let ?id = "tileSpecToString (fst (canonicalizeSpec ts1 d1))"
  have id: "tileSpecToString (fst (canonicalizeSpec ts2 d2)) = ?id"
    by (rule fingerprint_translated[OF same])
  obtain ts' d' where c: "canonicalizeSpec ts2 d2 = (ts', d')"
    by (cases "canonicalizeSpec ts2 d2")
  with id have id': "tileSpecToString ts' = ?id"
    by simp
  have "\<exists>consumer.
          ctx consumer = cx \<and> cbNext consumer = nx \<and>
          renderTiles cx d2 ts2 nx s =
            Inr (\<lparr>refRenderId = stRenderId st, refConsumer = consumer, refTiles = stTiles st,
                   refTileSetID = ?id\<rparr>,
                 s\<lparr>nextConsumerId := nextConsumerId s + 1,
                   sourceCaches := bumped (stTiles st) (sourceCaches s),
                   pendingRenders := (pendingRenders s)
                     (?id \<mapsto> st\<lparr>stConsumers := stConsumers st @ [consumer]\<rparr>)\<rparr>)"
    using pending
    by (simp add: renderTiles_def c id' Let_def foldl_updTile[OF tiles] bumped_def)
  with id show ?thesis by blast
qed

lemma usesOf_bumped:
  "usesOf (bumped ts sc) t = map_option (\<lambda>u. if t \<in> set ts then u + 1 else u) (usesOf sc t)"
  by (cases t; cases "sc (fst t)") (auto simp: usesOf_def getTile_def bumped_def)

lemma bumped_changes_usage_counts_only:
  "map_option (\<lambda>c. (nextTile c, sourceCalls c, tilesInUse c, tileCache c, promises c))
     (bumped ts sc n) =
   map_option (\<lambda>c. (nextTile c, sourceCalls c, tilesInUse c, tileCache c, promises c)) (sc n)"
  by (simp add: bumped_def option.map_comp comp_def)

lemma pairSubmitted_holds:
  "(case pendingRenders pairSubmitted
           (tileSpecToString (fst (canonicalizeSpec pairSpecs (drawTo 0 0)))) of
      None \<Rightarrow> False
    | Some st \<Rightarrow>
        stRenderId st = 1 \<and> stTiles st = [(''pbf'', 0), (''pbf'', 1)] \<and>
        length (stConsumers st) = 1) \<and>
   length (continuations pairSubmitted) = 1 \<and>
   usesOf (sourceCaches pairSubmitted) (''pbf'', 0) = Some 1 \<and>
   usesOf (sourceCaches pairSubmitted) (''pbf'', 1) = Some 1 \<and>
   map_option (\<lambda>c. (nextTile c, sourceCalls c)) (sourceCaches pairSubmitted ''pbf'') =
     Some (2, [LoadTile 0, LoadTile 1])"
  by (simp add: pairSubmitted_def pairSpecs_def renderTiles_def canonicalizeSpec_def Let_def
        renderer0_def specAt_def drawTo_def submitted_def acquireTile_def newTile_def
        newSourceCache_def wrapped_def key_def getTile_def usesOf_def)

theorem equivalent_submission_coalesces_witness:
  "mset movedPairSpecs = mset (map (translate 20 30) pairSpecs) \<and>
   (\<exists>renderRef s1.
      renderTiles 2 (drawTo 300 40) movedPairSpecs 12 pairSubmitted = Inr (renderRef, s1) \<and>
      refRenderId renderRef = 1 \<and> refTiles renderRef = [(''pbf'', 0), (''pbf'', 1)] \<and>
      usesOf (sourceCaches pairSubmitted) (''pbf'', 0) = Some 1 \<and>
      usesOf (sourceCaches pairSubmitted) (''pbf'', 1) = Some 1 \<and>
      usesOf (sourceCaches s1) (''pbf'', 0) = Some 2 \<and>
      usesOf (sourceCaches s1) (''pbf'', 1) = Some 2 \<and>
      map_option (\<lambda>c. (nextTile c, sourceCalls c)) (sourceCaches s1 ''pbf'') =
        Some (2, [LoadTile 0, LoadTile 1]) \<and>
      map_option (\<lambda>st. length (stConsumers st)) (pendingRenders s1 (refTileSetID renderRef)) =
        Some 2 \<and>
      length (continuations s1) = 1)"
proof -
  let ?id = "tileSpecToString (fst (canonicalizeSpec pairSpecs (drawTo 0 0)))"
  have same: "mset movedPairSpecs = mset (map (translate 20 30) pairSpecs)"
    by (simp add: movedPairSpecs_def pairSpecs_def translate_def specAt_def add_mset_commute)
  from pairSubmitted_holds obtain st where pending: "pendingRenders pairSubmitted ?id = Some st"
    and st: "stRenderId st = 1" "stTiles st = [(''pbf'', 0), (''pbf'', 1)]"
      "length (stConsumers st) = 1"
    by (auto split: option.splits)
  have tiles: "distinct (stTiles st)"
    by (simp add: st)
  from equivalent_submission_coalesces[OF same pending tiles, of "drawTo 300 40" 2 12]
  obtain consumer where "renderTiles 2 (drawTo 300 40) movedPairSpecs 12 pairSubmitted =
      Inr (\<lparr>refRenderId = stRenderId st, refConsumer = consumer, refTiles = stTiles st,
             refTileSetID = ?id\<rparr>,
           pairSubmitted\<lparr>nextConsumerId := nextConsumerId pairSubmitted + 1,
             sourceCaches := bumped (stTiles st) (sourceCaches pairSubmitted),
             pendingRenders := (pendingRenders pairSubmitted)
               (?id \<mapsto> st\<lparr>stConsumers := stConsumers st @ [consumer]\<rparr>)\<rparr>)"
    by auto
  moreover have "usesOf (bumped (stTiles st) (sourceCaches pairSubmitted)) (''pbf'', 0) = Some 2"
    "usesOf (bumped (stTiles st) (sourceCaches pairSubmitted)) (''pbf'', 1) = Some 2"
    using pairSubmitted_holds by (simp_all add: usesOf_bumped st)
  moreover have "map_option (\<lambda>c. (nextTile c, sourceCalls c))
        (bumped (stTiles st) (sourceCaches pairSubmitted) ''pbf'') =
      Some (2, [LoadTile 0, LoadTile 1])"
    using pairSubmitted_holds by (auto simp: bumped_def)
  ultimately show ?thesis
    using same st pairSubmitted_holds by simp
qed

text \<open>
  The pending states of a renderer have duplicate-free tile lists: a new render acquires fresh
  tiles, and no operation changes the tile list of a state.
\<close>

lemma renderTiles_keeps_tiles_distinct:
  assumes "\<And>i st. pendingRenders s i = Some st \<Longrightarrow> distinct (stTiles st)"
    and "renderTiles cx d ts nx s = Inr (renderRef, s1)" and "pendingRenders s1 i = Some st"
  shows "distinct (stTiles st)"
proof -
  obtain ts' d' where c: "canonicalizeSpec ts d = (ts', d')"
    by (cases "canonicalizeSpec ts d")
  show ?thesis
  proof (cases "pendingRenders s (tileSpecToString ts')")
    case (Some st0)
    with assms(2,3) c have "pendingRenders s i = Some st \<or>
        (\<exists>co. st = st0\<lparr>stConsumers := stConsumers st0 @ [co]\<rparr>)"
      by (auto simp: renderTiles_def Let_def split: if_splits)
    with assms(1) Some show ?thesis by auto
  next
    case None
    with assms(2,3) c have "pendingRenders s i = Some st \<or>
        (\<exists>sc1. acquireTiles ts' (sourceCaches s) = Inr (stTiles st, sc1))"
      by (auto simp: renderTiles_def Let_def split: if_splits sum.splits prod.splits)
    with assms(1) acquireTiles_fresh show ?thesis by blast
  qed
qed

text \<open>
  A continuation waits for one promise per tile spec, so where it composites, its tile-spec list
  is not empty and \<^verbatim>\<open>tilesSpec[0]\<close> is read in range.
\<close>

lemma acquireTiles_length: "acquireTiles ss sc = Inr (rs, sc1) \<Longrightarrow> length rs = length ss"
  by (induction ss arbitrary: sc rs sc1) (auto split: option.splits sum.splits prod.splits)

lemma tilePromises_length: "tilePromises ts sc = Inr ps \<Longrightarrow> length ps = length ts"
  by (induction ts arbitrary: ps) (auto split: option.splits sum.splits)

lemma renderTiles_continuation_lengths:
  assumes "renderTiles cx d ts nx s = Inr (renderRef, s1)"
    and "\<forall>k\<in>set (continuations s). length (kPromises k) = length (kTilesSpec k)"
  shows "\<forall>k\<in>set (continuations s1). length (kPromises k) = length (kTilesSpec k)"
  using assms
  by (auto simp: renderTiles_def Let_def split: prod.splits option.splits sum.splits
        dest!: acquireTiles_length tilePromises_length)

lemma first_spec_exists:
  assumes "length (kPromises k) = length (kTilesSpec k)"
    and "int (length (kTilesSpec k)) - int (length (badTileIdxs k s)) \<noteq> 0"
  shows "kTilesSpec k \<noteq> []"
  using assms by (auto simp: badTileIdxs_def)

subsection \<open>Stale continuations\<close>

text \<open>
  C5. When the continuation of a render runs and the registry has no state under its fingerprint
  (the render was canceled), or has a state with another render id (it was superseded), the
  continuation returns the renderer as it found it: no call to the painter or to a canvas, no
  consumer settled, no registry or cache changed. The same holds for \<^verbatim>\<open>_finishRender\<close>,
  which the rejection handler of the continuation would call.
\<close>

theorem stale_continuation_changes_nothing:
  assumes "pendingRenders s (kTileSetID k) = None \<or>
           (\<exists>st. pendingRenders s (kTileSetID k) = Some st \<and> stRenderId st \<noteq> kRenderId k)"
  shows "tilesLoaded k s = Some s \<and> finishRender (kTileSetID k) (kRenderId k) err s = s"
  using assms by (auto simp: tilesLoaded_def finishRender_def)

lemma canceledRender_holds:
  "continuations canceledRender \<noteq> [] \<and>
   pendingRenders canceledRender (kTileSetID (hd (continuations canceledRender))) = None \<and>
   calls canceledRender = [Next 100 (Some ''canceled'')] \<and>
   map_option sourceCalls (sourceCaches canceledRender ''pbf'') =
     Some [LoadTile 0, AbortTile 0, UnloadTile 0]"
  by (simp add: canceledRender_def firstRef_def oneConsumer_def renderTiles_def
        canonicalizeSpec_def Let_def renderer0_def specAt_def drawTo_def submitted_def
        acquireTile_def newTile_def newSourceCache_def wrapped_def key_def getTile_def
        releaseRender_def releaseTile_def finishRender_def)

lemma resubmitted_holds:
  "length (continuations resubmitted) = 2 \<and>
   kRenderId (hd (continuations resubmitted)) = 1 \<and>
   map_option stRenderId
     (pendingRenders resubmitted (kTileSetID (hd (continuations resubmitted)))) = Some 2"
  by (simp add: resubmitted_def canceledRender_def firstRef_def oneConsumer_def renderTiles_def
        canonicalizeSpec_def Let_def renderer0_def specAt_def drawTo_def submitted_def
        acquireTile_def newTile_def newSourceCache_def wrapped_def key_def getTile_def
        releaseRender_def releaseTile_def finishRender_def)

theorem stale_continuation_changes_nothing_witness:
  "pendingRenders canceledRender (kTileSetID (hd (continuations canceledRender))) = None \<and>
   tilesLoaded (hd (continuations canceledRender)) canceledRender = Some canceledRender \<and>
   map_option stRenderId
     (pendingRenders resubmitted (kTileSetID (hd (continuations resubmitted)))) = Some 2 \<and>
   kRenderId (hd (continuations resubmitted)) = 1 \<and>
   tilesLoaded (hd (continuations resubmitted)) resubmitted = Some resubmitted"
proof -
  have canceled:
    "pendingRenders canceledRender (kTileSetID (hd (continuations canceledRender))) = None"
    using canceledRender_holds by simp
  have superseded: "\<exists>st. pendingRenders resubmitted (kTileSetID (hd (continuations resubmitted))) =
      Some st \<and> stRenderId st \<noteq> kRenderId (hd (continuations resubmitted))"
    using resubmitted_holds by auto
  from stale_continuation_changes_nothing[of canceledRender "hd (continuations canceledRender)"]
    stale_continuation_changes_nothing[of resubmitted "hd (continuations resubmitted)"]
    canceled superseded resubmitted_holds
  show ?thesis by blast
qed

subsection \<open>A submission with no tiles\<close>

text \<open>
  A submission with an empty tile-spec list that creates its render (no render of the empty tile
  set is pending) succeeds: the canonical source coordinates of its draw spec are minus infinity,
  its fingerprint is the empty string, its handle has no tiles, no cache changes, and the
  continuation it schedules waits for no promise. When that continuation runs, it clears the
  destination rectangle of the draw spec on the consumer's context, calls the completion callback
  once, with \<^verbatim>\<open>null\<close>, and removes the state from the registry.
\<close>

lemma creating_empty_submission_clears_and_succeeds:
  assumes "pendingRenders s [] = None"
  shows "\<exists>renderRef s1 k s2.
           renderTiles cx d [] nx s = Inr (renderRef, s1) \<and>
           srcLeft (drawSpec (refConsumer renderRef)) = NegInf \<and>
           srcTop (drawSpec (refConsumer renderRef)) = NegInf \<and>
           refTileSetID renderRef = [] \<and> refTiles renderRef = [] \<and>
           sourceCaches s1 = sourceCaches s \<and> calls s1 = calls s \<and>
           continuations s1 = continuations s @ [k] \<and> kPromises k = [] \<and> allSettled k s1 \<and>
           tilesLoaded k s1 = Some s2 \<and>
           calls s2 = calls s @ [ClearRect cx (destLeft d) (destTop d) (width d) (height d),
                                  Next nx None] \<and>
           pendingRenders s2 = pendingRenders s \<and> sourceCaches s2 = sourceCaches s"
  using assms
  by (auto simp: renderTiles_def canonicalizeSpec_def tileSpecToString_def Let_def
        tilesLoaded_def badTileIdxs_def allSettled_def finishRender_def)

lemma creating_empty_submission_at_renderer0:
  "pendingRenders renderer0 [] = None \<and>
   (\<exists>renderRef s1 k s2.
      renderTiles 7 (drawTo 300 40) [] 100 renderer0 = Inr (renderRef, s1) \<and>
      srcLeft (drawSpec (refConsumer renderRef)) = NegInf \<and>
      refTileSetID renderRef = [] \<and>
      continuations s1 = [k] \<and>
      tilesLoaded k s1 = Some s2 \<and>
      calls s2 = [ClearRect 7 300 40 256 256, Next 100 None] \<and>
      pendingRenders s2 = Map.empty)"
proof -
  have h: "pendingRenders renderer0 [] = None"
    by (simp add: renderer0_def)
  from creating_empty_submission_clears_and_succeeds[OF h, of 7 "drawTo 300 40" 100]
  show ?thesis
    using h by (auto simp: renderer0_def drawTo_def)
qed

text \<open>
  C10. The claim: a submission with an empty tile-spec list settles at once and without error:
  the canonical source coordinates are minus infinity, the fingerprint is the empty string, no
  tile is acquired, the destination rectangle of the consumer is cleared, and its completion
  callback is called once, with \<^verbatim>\<open>null\<close>. Two submissions with an empty list and
  the destinations (0, 0) and (300, 40), the second made before the continuation of the first
  runs: both have the empty fingerprint and source coordinates minus infinity, the second joins
  the render of the first, no tile is acquired, and the one continuation, which waits for no
  promise, calls each callback once with \<^verbatim>\<open>null\<close>. It clears the rectangle at
  (0, 0) on both contexts: the second consumer, whose own destination is (300, 40), gets the
  rectangle of the first.
\<close>

theorem second_empty_submission_gets_the_first_rectangle:
  "tileSpecToString (fst (canonicalizeSpec [] (drawTo 300 40))) = [] \<and>
   srcLeft (snd (canonicalizeSpec [] (drawTo 300 40))) = NegInf \<and>
   srcTop (snd (canonicalizeSpec [] (drawTo 300 40))) = NegInf \<and>
   pendingRenders renderer0 [] = None \<and>
   map_option (map destRect \<circ> stConsumers) (pendingRenders oneEmpty []) =
     Some [(7, 0, 0, 256, 256)] \<and>
   continuations twoEmpty = [emptyContinuation] \<and>
   kPromises emptyContinuation = [] \<and> allSettled emptyContinuation twoEmpty \<and>
   sourceCaches twoEmpty = sourceCaches renderer0 \<and>
   map_option (map destRect \<circ> stConsumers) (pendingRenders twoEmpty []) =
     Some [(7, 0, 0, 256, 256), (8, 300, 40, 256, 256)] \<and>
   map_option calls (tilesLoaded emptyContinuation twoEmpty) =
     Some [ClearRect 7 0 0 256 256, ClearRect 8 0 0 256 256, Next 100 None, Next 101 None] \<and>
   map_option pendingRenders (tilesLoaded emptyContinuation twoEmpty) = Some Map.empty"
  by (simp add: twoEmpty_def oneEmpty_def emptyContinuation_def continuationOf_def destRect_def
        renderTiles_def canonicalizeSpec_def tileSpecToString_def Let_def renderer0_def
        drawTo_def submitted_def tilesLoaded_def allSettled_def badTileIdxs_def
        finishRender_def)

subsection \<open>A render with no usable tile\<close>

text \<open>
  When the continuation of a current render finds as many failed tiles as tile specs, it calls
  \<^verbatim>\<open>clearRect\<close> once on the context of every consumer, always with the destination
  rectangle of the draw spec the continuation closed over (the one of the submission that created
  the render), settles every consumer in order with the outcome, and removes the state. The
  outcome is the message with the count of failed tiles, and \<^verbatim>\<open>null\<close> when the tile
  list is empty.
\<close>

lemma no_usable_tile_clears_and_settles:
  assumes "pendingRenders s (kTileSetID k) = Some st" and "stRenderId st = kRenderId k"
    and "length (badTileIdxs k s) = length (kTilesSpec k)"
  shows "tilesLoaded k s =
           Some (s\<lparr>calls := calls s @
                     map (\<lambda>c. ClearRect (ctx c) (destLeft (kDrawSpec k)) (destTop (kDrawSpec k))
                                (width (kDrawSpec k)) (height (kDrawSpec k))) (stConsumers st) @
                     map (\<lambda>c. Next (cbNext c)
                                (if kTilesSpec k = [] then None
                                 else Some (showNat (length (kTilesSpec k)) @ '' of '' @
                                            showNat (length (kTilesSpec k)) @
                                            '' tiles not available''))) (stConsumers st),
                   pendingRenders := (pendingRenders s)(kTileSetID k := None)\<rparr>)"
proof -
  from assms(3) have "(badTileIdxs k s = []) = (kTilesSpec k = [])"
    by (metis length_0_conv)
  with assms show ?thesis
    by (cases "kTilesSpec k = []") (simp_all add: tilesLoaded_def finishRender_def Let_def)
qed

text \<open>
  C4. The claim: when all tile loads of a current render have settled and no tile is usable, the
  destination region of each attached consumer (the one of its own draw spec) is cleared on that
  consumer's context, every consumer is settled with the error that counts the failed tiles, and
  the state is removed. Two submissions of one tile with the destinations (0, 0) and (300, 40)
  coalesce; the load of the tile times out. The continuation clears the rectangle at (0, 0) on
  both contexts: the second consumer, whose own destination is (300, 40), gets the rectangle of
  the first. Both consumers are settled with the message for 1 of 1 failed tiles.
\<close>

theorem clearRect_uses_the_creating_draw_spec:
  "continuations twoConsumersTimedOut = [timedOutContinuation] \<and>
   allSettled timedOutContinuation twoConsumersTimedOut \<and>
   badTileIdxs timedOutContinuation twoConsumersTimedOut = [0] \<and>
   map_option (map destRect \<circ> stConsumers)
     (pendingRenders twoConsumersTimedOut (kTileSetID timedOutContinuation)) =
     Some [(7, 0, 0, 256, 256), (8, 300, 40, 256, 256)] \<and>
   map_option calls (tilesLoaded timedOutContinuation twoConsumersTimedOut) =
     Some [ClearRect 7 0 0 256 256, ClearRect 8 0 0 256 256,
           Next 100 (Some ''1 of 1 tiles not available''),
           Next 101 (Some ''1 of 1 tiles not available'')]"
  by (simp add: twoConsumersTimedOut_def twoConsumers_def oneConsumer_def renderTiles_def
        timedOutContinuation_def continuationOf_def destRect_def
        canonicalizeSpec_def Let_def renderer0_def specAt_def drawTo_def submitted_def
        onSource_def acquireTile_def newTile_def newSourceCache_def wrapped_def key_def
        updTile_def getTile_def loadTimeout_def settle_def tilesLoaded_def allSettled_def
        badTileIdxs_def promiseState_def finishRender_def showNat.simps digitChar_def)

subsection \<open>Releasing a handle\<close>

lemma releaseTile_uses:
  assumes "0 < uses (tileStore c r)"
  shows "\<exists>c1. releaseTile r c = Inr c1 \<and>
           (\<forall>r'. uses (tileStore c1 r') =
                  (if r' = r then uses (tileStore c r) - 1 else uses (tileStore c r')))"
  using assms by (auto simp: releaseTile_def Let_def cacheAdd_def)

lemma releaseTiles_uses:
  assumes "distinct ts" and "\<forall>t\<in>set ts. \<exists>u. usesOf sc t = Some u \<and> 0 < u"
  shows "\<exists>sc1. releaseTiles ts sc = Inr sc1 \<and>
           (\<forall>t. usesOf sc1 t = map_option (\<lambda>u. if t \<in> set ts then u - 1 else u) (usesOf sc t))"
  using assms
proof (induction ts arbitrary: sc)
  case Nil
  show ?case by (simp add: option.map_ident)
next
  case (Cons t ts)
  obtain n r where t: "t = (n, r)" by (cases t)
  from Cons.prems(2) t obtain c where c: "sc n = Some c" and pos: "0 < uses (tileStore c r)"
    by (auto simp: usesOf_def getTile_def)
  from releaseTile_uses[OF pos] obtain c1 where rel: "releaseTile r c = Inr c1"
    and u1: "\<And>r'. uses (tileStore c1 r') =
                (if r' = r then uses (tileStore c r) - 1 else uses (tileStore c r'))"
    by blast
  have step: "usesOf (sc(n \<mapsto> c1)) t' =
              (if t' = t then map_option (\<lambda>u. u - 1) (usesOf sc t') else usesOf sc t')" for t'
    using c u1 by (cases t') (auto simp: usesOf_def getTile_def t)
  from Cons.prems have d: "distinct ts" and nin: "t \<notin> set ts"
    by simp_all
  have "\<forall>t'\<in>set ts. \<exists>u. usesOf (sc(n \<mapsto> c1)) t' = Some u \<and> 0 < u"
    using Cons.prems(2) nin by (auto simp: step)
  from Cons.IH[OF d this] obtain sc1 where r1: "releaseTiles ts (sc(n \<mapsto> c1)) = Inr sc1"
    and u: "\<And>t'. usesOf sc1 t' =
              map_option (\<lambda>u. if t' \<in> set ts then u - 1 else u) (usesOf (sc(n \<mapsto> c1)) t')"
    by blast
  have "releaseTiles (t # ts) sc = Inr sc1"
    using c rel r1 by (simp add: t)
  moreover have "usesOf sc1 t' =
      map_option (\<lambda>u. if t' \<in> set (t # ts) then u - 1 else u) (usesOf sc t')" for t'
    using nin by (cases "usesOf sc t'") (auto simp: u step)
  ultimately show ?case by blast
qed

text \<open>
  C7. \<^verbatim>\<open>releaseRender\<close> runs \<^verbatim>\<open>releaseTile\<close> over the tiles of the handle, in
  order, whatever the registry holds: it fails exactly when one of those calls fails its
  assertion, and otherwise the caches it leaves are the ones those calls leave. For a handle whose
  tiles are pairwise different and all in use, it returns and the usage count of each tile of the
  handle is one lower, every other count unchanged. When the registry has no state under the
  fingerprint of the handle, or the state there has another render id, nothing but the caches
  changes: no consumer is signalled and the registry is as it was.
\<close>

theorem releaseRender_releases_every_tile:
  "(case releaseTiles (refTiles renderRef) (sourceCaches s) of
      Inl e \<Rightarrow> releaseRender renderRef s = Inl e
    | Inr sc \<Rightarrow>
        (\<exists>s1. releaseRender renderRef s = Inr s1 \<and> sourceCaches s1 = sc \<and>
           ((pendingRenders s (refTileSetID renderRef) = None \<or>
             (\<exists>st. pendingRenders s (refTileSetID renderRef) = Some st \<and>
                   stRenderId st \<noteq> refRenderId renderRef)) \<longrightarrow>
            s1 = s\<lparr>sourceCaches := sc\<rparr>))) \<and>
   (distinct (refTiles renderRef) \<and>
    (\<forall>t\<in>set (refTiles renderRef). \<exists>u. usesOf (sourceCaches s) t = Some u \<and> 0 < u) \<longrightarrow>
      (\<exists>s1. releaseRender renderRef s = Inr s1 \<and>
         (\<forall>t. usesOf (sourceCaches s1) t =
               map_option (\<lambda>u. if t \<in> set (refTiles renderRef) then u - 1 else u)
                 (usesOf (sourceCaches s) t))))"
proof -
  have first: "case releaseTiles (refTiles renderRef) (sourceCaches s) of
      Inl e \<Rightarrow> releaseRender renderRef s = Inl e
    | Inr sc \<Rightarrow>
        (\<exists>s1. releaseRender renderRef s = Inr s1 \<and> sourceCaches s1 = sc \<and>
           ((pendingRenders s (refTileSetID renderRef) = None \<or>
             (\<exists>st. pendingRenders s (refTileSetID renderRef) = Some st \<and>
                   stRenderId st \<noteq> refRenderId renderRef)) \<longrightarrow>
            s1 = s\<lparr>sourceCaches := sc\<rparr>))"
    by (auto simp: releaseRender_def finishRender_def Let_def split: sum.splits option.splits)
  have second: "\<exists>s1. releaseRender renderRef s = Inr s1 \<and>
         (\<forall>t. usesOf (sourceCaches s1) t =
               map_option (\<lambda>u. if t \<in> set (refTiles renderRef) then u - 1 else u)
                 (usesOf (sourceCaches s) t))"
    if d: "distinct (refTiles renderRef)"
      and p: "\<forall>t\<in>set (refTiles renderRef). \<exists>u. usesOf (sourceCaches s) t = Some u \<and> 0 < u"
  proof -
    from releaseTiles_uses[OF d p] obtain sc1 where
      r: "releaseTiles (refTiles renderRef) (sourceCaches s) = Inr sc1"
      and u: "\<forall>t. usesOf sc1 t =
                map_option (\<lambda>u. if t \<in> set (refTiles renderRef) then u - 1 else u)
                  (usesOf (sourceCaches s) t)"
      by blast
    from first r obtain s1 where "releaseRender renderRef s = Inr s1" "sourceCaches s1 = sc1"
      by auto
    with u show ?thesis by auto
  qed
  from first second show ?thesis by blast
qed

lemma settledRender_holds:
  "pendingRenders settledRender = Map.empty \<and>
   usesOf (sourceCaches settledRender) (''pbf'', 0) = Some 2 \<and>
   calls settledRender =
     [ClearRect 7 0 0 256 256, ClearRect 8 0 0 256 256,
      Next 100 (Some ''1 of 1 tiles not available''),
      Next 101 (Some ''1 of 1 tiles not available'')]"
  by (simp add: settledRender_def twoConsumersTimedOut_def twoConsumers_def oneConsumer_def
        timedOutContinuation_def continuationOf_def
        renderTiles_def canonicalizeSpec_def Let_def renderer0_def specAt_def drawTo_def
        submitted_def onSource_def acquireTile_def newTile_def newSourceCache_def wrapped_def
        key_def updTile_def getTile_def loadTimeout_def settle_def tilesLoaded_def
        badTileIdxs_def promiseState_def finishRender_def showNat.simps digitChar_def usesOf_def)

lemma firstRef_holds:
  "\<exists>renderRef. firstRef = Some renderRef \<and> refTiles renderRef = [(''pbf'', 0)] \<and>
     refRenderId renderRef = 1"
  by (simp add: firstRef_def renderTiles_def canonicalizeSpec_def Let_def renderer0_def
        specAt_def drawTo_def acquireTile_def newTile_def newSourceCache_def wrapped_def
        key_def getTile_def)

theorem releaseRender_releases_every_tile_witness:
  "\<exists>renderRef s1.
     firstRef = Some renderRef \<and> refTiles renderRef = [(''pbf'', 0)] \<and>
     pendingRenders settledRender (refTileSetID renderRef) = None \<and>
     usesOf (sourceCaches settledRender) (''pbf'', 0) = Some 2 \<and>
     releaseRender renderRef settledRender = Inr s1 \<and>
     usesOf (sourceCaches s1) (''pbf'', 0) = Some 1 \<and>
     s1 = settledRender\<lparr>sourceCaches := sourceCaches s1\<rparr>"
proof -
  from firstRef_holds obtain renderRef where f: "firstRef = Some renderRef"
    and tiles: "refTiles renderRef = [(''pbf'', 0)]"
    by blast
  have gone: "pendingRenders settledRender (refTileSetID renderRef) = None"
    using settledRender_holds by simp
  have d: "distinct (refTiles renderRef)"
    by (simp add: tiles)
  have p: "\<forall>t\<in>set (refTiles renderRef). \<exists>u. usesOf (sourceCaches settledRender) t = Some u \<and> 0 < u"
    using settledRender_holds by (simp add: tiles)
  from releaseRender_releases_every_tile[of renderRef settledRender] d p
  obtain s1 where r: "releaseRender renderRef settledRender = Inr s1"
    and u: "\<forall>t. usesOf (sourceCaches s1) t =
              map_option (\<lambda>u. if t \<in> set (refTiles renderRef) then u - 1 else u)
                (usesOf (sourceCaches settledRender) t)"
    by blast
  from releaseRender_releases_every_tile[of renderRef settledRender] r gone
  have same: "s1 = settledRender\<lparr>sourceCaches := sourceCaches s1\<rparr>"
    by (auto split: sum.splits)
  from u settledRender_holds have "usesOf (sourceCaches s1) (''pbf'', 0) = Some 1"
    by (simp add: tiles)
  with f tiles gone r same settledRender_holds show ?thesis
    by blast
qed

subsection \<open>The compositor\<close>

text \<open>
  For consumers at finite positions the box the reductions compute is the bounding box of the
  union of their source rectangles.
\<close>

lemma jsmax_Fin [simp]: "jsmax (Fin a) (Fin b) = Fin (max a b)"
  by (simp add: jsmax_def)

lemma jsmax_NegInf [simp]: "jsmax NegInf b = b"
  by (cases b) (simp_all add: jsmax_def)

lemma foldl_jsmax_Fin: "foldl jsmax (Fin a) (map Fin xs) = Fin (Max (insert a (set xs)))"
proof (induction xs arbitrary: a)
  case Nil
  show ?case by simp
next
  case (Cons x xs)
  have "Max (insert (max a x) (set xs)) = Max (insert a (insert x (set xs)))"
    by (cases "set xs = {}") (simp_all add: max.assoc)
  with Cons show ?case by simp
qed

lemma boundingBox_finite:
  assumes "cs \<noteq> []" and "map (\<lambda>c. srcLeft (drawSpec c)) cs = map Fin ls"
    and "map (\<lambda>c. srcTop (drawSpec c)) cs = map Fin tops"
  shows "boundingBox cs =
           (Fin (Min (set ls)),
            Fin (Max (set (map2 (+) ls (map (\<lambda>c. width (drawSpec c)) cs)))),
            Fin (Min (set tops)),
            Fin (Max (set (map2 (+) tops (map (\<lambda>c. height (drawSpec c)) cs)))))"
proof -
  have sum: "map (\<lambda>c. plusFin (f c) (g c)) cs = map Fin (map2 (+) vs (map g cs))"
    if "map f cs = map Fin vs" for f :: "Consumer \<Rightarrow> jsnum" and g vs
    using that
  proof (induction cs arbitrary: vs)
    case Nil
    then show ?case by simp
  next
    case (Cons c cs)
    then obtain v vs' where "vs = v # vs'" by (cases vs) auto
    with Cons show ?case by auto
  qed
  have nonempty: "ls \<noteq> []" "tops \<noteq> []"
    using assms by auto
  have ne2: "map2 (+) ls (map (\<lambda>c. width (drawSpec c)) cs) \<noteq> []"
    "map2 (+) tops (map (\<lambda>c. height (drawSpec c)) cs) \<noteq> []"
    using assms nonempty by (cases ls; cases cs; simp)+
  have mn: "foldl jsmin PosInf (map Fin xs) = Fin (Min (set xs))" if "xs \<noteq> []" for xs
    using that by (rule reduce_min_nonempty)
  have mx: "foldl jsmax NegInf (map Fin xs) = Fin (Max (set xs))" if "xs \<noteq> []" for xs
    using that by (cases xs) (simp_all add: foldl_jsmax_Fin)
  show ?thesis
    unfolding boundingBox_def Let_def assms(2,3) sum[OF assms(2)] sum[OF assms(3)]
    by (simp only: mn[OF nonempty(1)] mn[OF nonempty(2)] mx[OF ne2(1)] mx[OF ne2(2)])
qed

lemma blockStarts_formula:
  "blockStarts lo hi =
     map (\<lambda>i. lo + OFFSCREEN_CANV_SIZE * int i) [0..<nat ((hi - lo + 1023) div 1024)]"
proof (induction lo hi rule: blockStarts.induct)
  case (1 lo hi)
  show ?case
  proof (cases "lo < hi")
    case False
    then have "nat ((hi - lo + 1023) div 1024) = 0"
      by simp
    with False show ?thesis
      by (simp add: blockStarts.simps[of lo hi])
  next
    case True
    then have n: "nat ((hi - lo + 1023) div 1024) =
                  Suc (nat ((hi - (lo + OFFSCREEN_CANV_SIZE) + 1023) div 1024))"
      by (simp add: OFFSCREEN_CANV_SIZE_def)
    have shift: "map (\<lambda>i. lo + OFFSCREEN_CANV_SIZE * int i) [0..<Suc m] =
          lo # map (\<lambda>i. lo + OFFSCREEN_CANV_SIZE + OFFSCREEN_CANV_SIZE * int i) [0..<m]" for m
      by (simp add: upt_conv_Cons map_Suc_upt[symmetric] algebra_simps del: upt_Suc)
    have "blockStarts lo hi = lo # blockStarts (lo + OFFSCREEN_CANV_SIZE) hi"
      using True by (simp add: blockStarts.simps[of lo hi])
    also have "\<dots> = lo # map (\<lambda>i. lo + OFFSCREEN_CANV_SIZE + OFFSCREEN_CANV_SIZE * int i)
                          [0..<nat ((hi - (lo + OFFSCREEN_CANV_SIZE) + 1023) div 1024)]"
      by (simp only: 1[OF True])
    also have "\<dots> = map (\<lambda>i. lo + OFFSCREEN_CANV_SIZE * int i)
                      [0..<Suc (nat ((hi - (lo + OFFSCREEN_CANV_SIZE) + 1023) div 1024))]"
      by (simp only: shift)
    also have "\<dots> = map (\<lambda>i. lo + OFFSCREEN_CANV_SIZE * int i)
                      [0..<nat ((hi - lo + 1023) div 1024)]"
      by (simp only: n)
    finally show ?thesis .
  qed
qed

lemma loopY_blocks:
  "loopY cs z0 xx yy ySrcMax log =
     log @ concat (map (renderBlock cs z0 xx) (blockStarts yy ySrcMax))"
proof (induction cs z0 xx yy ySrcMax log rule: loopY.induct)
  case (1 cs z0 xx yy ySrcMax log)
  show ?case
  proof (cases "yy < ySrcMax")
    case True
    with 1 show ?thesis
      by (simp add: loopY.simps[of cs z0 xx yy] blockStarts.simps[of yy])
  next
    case False
    then show ?thesis
      by (simp add: loopY.simps[of cs z0 xx yy] blockStarts.simps[of yy])
  qed
qed

lemma forY_blocks:
  "forY cs z0 xx (Fin ylo) (Fin yhi) log =
     Some (log @ concat (map (renderBlock cs z0 xx) (blockStarts ylo yhi)))"
  by (simp add: forY_def loopY_blocks blockStarts.simps[of ylo])

lemma loopX_blocks:
  "loopX cs z0 xx xSrcMax (Fin ylo) (Fin yhi) log =
     Some (log @ concat (map (\<lambda>xx. concat (map (renderBlock cs z0 xx) (blockStarts ylo yhi)))
                          (blockStarts xx xSrcMax)))"
proof (induction cs z0 xx xSrcMax "Fin ylo" "Fin yhi" log rule: loopX.induct)
  case (1 cs z0 xx xSrcMax log)
  show ?case
  proof (cases "xx < xSrcMax")
    case True
    with 1 show ?thesis
      by (simp add: loopX.simps[of cs z0 xx] forY_blocks blockStarts.simps[of xx])
  next
    case False
    then show ?thesis
      by (simp add: loopX.simps[of cs z0 xx] blockStarts.simps[of xx])
  qed
qed

lemma composite_blocks:
  assumes "boundingBox cs = (Fin xlo, Fin xhi, Fin ylo, Fin yhi)"
  shows "composite cs z0 log =
           Some (log @ concat (map (\<lambda>(xx, yy). renderBlock cs z0 xx yy)
                                (columnMajorBlocks xlo xhi ylo yhi)))"
proof -
  have flat: "concat (map (\<lambda>(xx, yy). renderBlock cs z0 xx yy)
                  (concat (map (\<lambda>xx. map (\<lambda>yy. (xx, yy)) ys) xs))) =
              concat (map (\<lambda>xx. concat (map (renderBlock cs z0 xx) ys)) xs)"
    for xs ys :: "int list"
    by (induction xs) (simp_all add: comp_def)
  show ?thesis
    using assms
    by (simp add: composite_def forX_def loopX_blocks columnMajorBlocks_def flat
          blockStarts.simps[of xlo])
qed

lemma renderedBlocks_append [simp]:
  "renderedBlocks (xs @ ys) = renderedBlocks xs @ renderedBlocks ys"
  by (induction xs rule: renderedBlocks.induct) simp_all

lemma renderedBlocks_copyOut [simp]: "renderedBlocks (map (copyOut xx yy) cs) = []"
  by (induction cs) (simp_all add: copyOut_def Let_def)

lemma renderedBlocks_Next [simp]: "renderedBlocks (map (\<lambda>c. Next (f c) e) cs) = []"
  by (induction cs) simp_all

lemma renderBlock_skips: "\<forall>c\<in>set cs. \<not> relevant xx yy c \<Longrightarrow> renderBlock cs z0 xx yy = []"
  by (simp add: renderBlock_def Let_def filter_empty_conv)

lemma renderBlock_renders_once:
  "\<exists>c\<in>set cs. relevant xx yy c \<Longrightarrow>
   renderBlock cs z0 xx yy =
     [StyleUpdate z0, PainterRender xx yy] @ map (copyOut xx yy) (filter (relevant xx yy) cs)"
  by (auto simp: renderBlock_def Let_def filter_empty_conv)

lemma renderedBlocks_renderBlock:
  "renderedBlocks (renderBlock cs z0 xx yy) =
     (if \<exists>c\<in>set cs. relevant xx yy c then [(xx, yy)] else [])"
  by (auto simp: renderBlock_renders_once renderBlock_skips simp del: append.simps)

text \<open>
  C8. The claim: the compositor iterates the blocks of the union bounding box in row-major
  order; a consumer overlaps a block under half-open interval tests; a block with no overlapping
  consumer causes no call to the painter and no copy. The code runs its outer loop over \<open>xx\<close>
  and its inner loop over \<open>yy\<close>, which is column-major. Amended: for a bounding box with
  finite bounds, the calls of the compositor are those of its blocks in column-major order, the
  blocks starting at the lower bounds and following each other at the block size; a block no
  consumer is relevant to contributes no call at all, any other block one style update, one call
  of the painter and one copy per relevant consumer; and a consumer at a finite position is
  relevant to a block exactly when the two rectangles overlap under strict comparisons, so a
  consumer that only touches an edge of the block is not.
\<close>

theorem compositor_visits_blocks_column_major:
  assumes "boundingBox cs = (Fin xlo, Fin xhi, Fin ylo, Fin yhi)"
  shows "composite cs z0 log =
           Some (log @ concat (map (\<lambda>(xx, yy). renderBlock cs z0 xx yy)
                                (columnMajorBlocks xlo xhi ylo yhi))) \<and>
         columnMajorBlocks xlo xhi ylo yhi =
           concat (map (\<lambda>i. map (\<lambda>j. (xlo + OFFSCREEN_CANV_SIZE * int i,
                                       ylo + OFFSCREEN_CANV_SIZE * int j))
                               [0..<nat ((yhi - ylo + 1023) div 1024)])
                    [0..<nat ((xhi - xlo + 1023) div 1024)]) \<and>
         (\<forall>xx yy. (\<forall>c\<in>set cs. \<not> relevant xx yy c) \<longrightarrow> renderBlock cs z0 xx yy = []) \<and>
         (\<forall>xx yy. (\<exists>c\<in>set cs. relevant xx yy c) \<longrightarrow>
            renderBlock cs z0 xx yy =
              [StyleUpdate z0, PainterRender xx yy] @
              map (copyOut xx yy) (filter (relevant xx yy) cs)) \<and>
         (\<forall>c xx yy l t.
            srcLeft (drawSpec c) = Fin l \<and> srcTop (drawSpec c) = Fin t \<longrightarrow>
            relevant xx yy c =
              (xx < l + width (drawSpec c) \<and> l < xx + OFFSCREEN_CANV_SIZE \<and>
               yy < t + height (drawSpec c) \<and> t < yy + OFFSCREEN_CANV_SIZE))"
proof (intro conjI allI impI)
  show "composite cs z0 log =
          Some (log @ concat (map (\<lambda>(xx, yy). renderBlock cs z0 xx yy)
                               (columnMajorBlocks xlo xhi ylo yhi)))"
    by (rule composite_blocks[OF assms])
next
  show "columnMajorBlocks xlo xhi ylo yhi =
          concat (map (\<lambda>i. map (\<lambda>j. (xlo + OFFSCREEN_CANV_SIZE * int i,
                                      ylo + OFFSCREEN_CANV_SIZE * int j))
                              [0..<nat ((yhi - ylo + 1023) div 1024)])
                   [0..<nat ((xhi - xlo + 1023) div 1024)])"
    by (simp add: columnMajorBlocks_def blockStarts_formula comp_def)
next
  fix xx yy
  assume "\<forall>c\<in>set cs. \<not> relevant xx yy c"
  then show "renderBlock cs z0 xx yy = []"
    by (rule renderBlock_skips)
next
  fix xx yy
  assume "\<exists>c\<in>set cs. relevant xx yy c"
  then show "renderBlock cs z0 xx yy =
      [StyleUpdate z0, PainterRender xx yy] @ map (copyOut xx yy) (filter (relevant xx yy) cs)"
    by (rule renderBlock_renders_once)
next
  fix c :: Consumer and xx yy l t
  assume "srcLeft (drawSpec c) = Fin l \<and> srcTop (drawSpec c) = Fin t"
  then show "relevant xx yy c =
      (xx < l + width (drawSpec c) \<and> l < xx + OFFSCREEN_CANV_SIZE \<and>
       yy < t + height (drawSpec c) \<and> t < yy + OFFSCREEN_CANV_SIZE)"
    by (simp add: relevant_def)
qed

lemma blockStarts_two: "blockStarts 0 2048 = [0, 1024]"
  by (simp add: blockStarts.simps[of 0] blockStarts.simps[of 1024] blockStarts.simps[of 2048]
        OFFSCREEN_CANV_SIZE_def)

lemma wideLoaded_holds:
  "continuations wideLoaded = [wideContinuation] \<and> calls wideLoaded = [] \<and>
   allSettled wideContinuation wideLoaded \<and> badTileIdxs wideContinuation wideLoaded = [] \<and>
   kTilesSpec wideContinuation \<noteq> [] \<and>
   (case pendingRenders wideLoaded (kTileSetID wideContinuation) of
      None \<Rightarrow> False
    | Some st \<Rightarrow>
        stRenderId st = kRenderId wideContinuation \<and>
        boundingBox (stConsumers st) = (Fin 0, Fin 2048, Fin 0, Fin 2048) \<and>
        map (\<lambda>c. (srcLeft (drawSpec c), srcTop (drawSpec c), width (drawSpec c),
                   height (drawSpec c))) (stConsumers st) = [(Fin 0, Fin 0, 2048, 2048)])"
  by (simp add: wideLoaded_def wideContinuation_def continuationOf_def wideDraw_def
        renderTiles_def canonicalizeSpec_def Let_def renderer0_def
        specAt_def submitted_def onSource_def acquireTile_def newTile_def newSourceCache_def
        wrapped_def key_def getTile_def loadCallback_def settle_def allSettled_def
        badTileIdxs_def promiseState_def boundingBox_def jsmin_def jsmax_def)

theorem compositor_not_row_major_counterexample:
  "continuations wideLoaded = [wideContinuation] \<and>
   allSettled wideContinuation wideLoaded \<and>
   blocksPainted (tilesLoaded wideContinuation wideLoaded) =
     Some [(0, 0), (0, 1024), (1024, 0), (1024, 1024)] \<and>
   rowMajorBlocks 0 2048 0 2048 = [(0, 0), (1024, 0), (0, 1024), (1024, 1024)] \<and>
   blocksPainted (tilesLoaded wideContinuation wideLoaded) \<noteq>
     Some (rowMajorBlocks 0 2048 0 2048)"
proof -
  from wideLoaded_holds obtain st where k: "continuations wideLoaded = [wideContinuation]"
    and empty: "calls wideLoaded = []"
    and settled: "allSettled wideContinuation wideLoaded"
    and bad: "badTileIdxs wideContinuation wideLoaded = []"
    and specs: "kTilesSpec wideContinuation \<noteq> []"
    and st: "pendingRenders wideLoaded (kTileSetID wideContinuation) = Some st"
      "stRenderId st = kRenderId wideContinuation"
    and box: "boundingBox (stConsumers st) = (Fin 0, Fin 2048, Fin 0, Fin 2048)"
    and cons: "map (\<lambda>c. (srcLeft (drawSpec c), srcTop (drawSpec c), width (drawSpec c),
                   height (drawSpec c))) (stConsumers st) = [(Fin 0, Fin 0, 2048, 2048)]"
    by (auto split: option.splits)
  from cons obtain co where co: "stConsumers st = [co]" "srcLeft (drawSpec co) = Fin 0"
    "srcTop (drawSpec co) = Fin 0" "width (drawSpec co) = 2048" "height (drawSpec co) = 2048"
    by auto
  have box1: "boundingBox [co] = (Fin 0, Fin 2048, Fin 0, Fin 2048)"
    using box co(1) by simp
  have comp: "composite [co] z0 [] =
      Some (concat (map (\<lambda>(xx, yy). renderBlock [co] z0 xx yy)
                      [(0, 0), (0, 1024), (1024, 0), (1024, 1024)]))" for z0
    using composite_blocks[OF box1, of z0 "[]"]
    by (simp add: columnMajorBlocks_def blockStarts_two)
  have blocks: "blocksPainted (tilesLoaded wideContinuation wideLoaded) =
      Some [(0, 0), (0, 1024), (1024, 0), (1024, 1024)]"
    using st bad specs
    by (simp add: blocksPainted_def tilesLoaded_def Let_def co comp empty
          renderedBlocks_renderBlock relevant_def OFFSCREEN_CANV_SIZE_def)
  have rows: "rowMajorBlocks 0 2048 0 2048 = [(0, 0), (1024, 0), (0, 1024), (1024, 1024)]"
    by (simp add: rowMajorBlocks_def blockStarts_two)
  have differ: "blocksPainted (tilesLoaded wideContinuation wideLoaded) \<noteq>
      Some (rowMajorBlocks 0 2048 0 2048)"
    unfolding blocks rows by simp
  from k settled blocks rows differ show ?thesis
    by blast
qed

lemma diagonalConsumers_box:
  "boundingBox diagonalConsumers = (Fin 0, Fin 2048, Fin 0, Fin 2048)"
  by (simp add: diagonalConsumers_def blockConsumer_def boundingBox_def jsmax_def)

theorem compositor_visits_blocks_column_major_witness:
  "boundingBox diagonalConsumers = (Fin 0, Fin 2048, Fin 0, Fin 2048) \<and>
   columnMajorBlocks 0 2048 0 2048 = [(0, 0), (0, 1024), (1024, 0), (1024, 1024)] \<and>
   \<not> relevant 0 1024 (blockConsumer 1 0 0) \<and> \<not> relevant 0 1024 (blockConsumer 2 1024 1024) \<and>
   renderBlock diagonalConsumers 3 0 1024 = [] \<and>
   relevant 0 0 (blockConsumer 1 0 0) \<and>
   composite diagonalConsumers 3 [] =
     Some [StyleUpdate 3, PainterRender 0 0, DrawImage 1 0 0 1024 1024 (Fin 0) (Fin 0),
           StyleUpdate 3, PainterRender 1024 1024, DrawImage 2 0 0 1024 1024 (Fin 0) (Fin 0)]"
proof -
  note inst = compositor_visits_blocks_column_major[OF diagonalConsumers_box, of 3 "[]"]
  have r1: "\<not> relevant 0 1024 (blockConsumer 1 0 0)"
    and r2: "\<not> relevant 0 1024 (blockConsumer 2 1024 1024)"
    and r3: "relevant 0 0 (blockConsumer 1 0 0)"
    by (simp_all add: relevant_def blockConsumer_def OFFSCREEN_CANV_SIZE_def)
  have none: "\<forall>c\<in>set diagonalConsumers. \<not> relevant 0 1024 c"
    using r1 r2 by (simp add: diagonalConsumers_def)
  from inst none have skip: "renderBlock diagonalConsumers 3 0 1024 = []"
    by blast
  have cm: "columnMajorBlocks 0 2048 0 2048 = [(0, 0), (0, 1024), (1024, 0), (1024, 1024)]"
    by (simp add: columnMajorBlocks_def blockStarts_two)
  from inst have "composite diagonalConsumers 3 [] =
      Some ([] @ concat (map (\<lambda>(xx, yy). renderBlock diagonalConsumers 3 xx yy)
                           (columnMajorBlocks 0 2048 0 2048)))"
    by blast
  then have "composite diagonalConsumers 3 [] =
     Some [StyleUpdate 3, PainterRender 0 0, DrawImage 1 0 0 1024 1024 (Fin 0) (Fin 0),
           StyleUpdate 3, PainterRender 1024 1024, DrawImage 2 0 0 1024 1024 (Fin 0) (Fin 0)]"
    by (simp add: cm renderBlock_def relevant_def copyOut_def diagonalConsumers_def
          blockConsumer_def OFFSCREEN_CANV_SIZE_def Let_def jsmin_def jsmax_def)
  with diagonalConsumers_box cm r1 r2 r3 skip show ?thesis
    by blast
qed

end
